(* ===== verification/Prelude.thy ===== *)
theory Prelude
  imports Main "HOL-Library.Word" "HOL-Library.AList"
begin

text \<open>
  What every component of the model shares.

  Part 1 is the effect of a C++ member function: it reads and writes the world of the proxy and
  either returns or fails.  A failure keeps the state that was reached, because a C++ exception does
  not roll back the assignments made before it.  Part 2 is the vocabulary of frame conditions,
  invariants and escaping failures over such functions, with one rule per way to build one, all in
  the collections \<open>frame\<close> and \<open>safe\<close>.  Part 3 is what the code uses of the standard library on
  strings: decimal and hexadecimal printing, \<open>find\<close> on a character.  Part 4 is the insertion and
  removal on the association lists that stand for \<open>unordered_map\<close> and \<open>map\<close>.
\<close>

named_theorems frame \<open>rules that show a function leaves part of the world alone\<close>
named_theorems safe \<open>rules that bound the failures a function can end in\<close>
named_theorems under \<open>rules that bound them for the worlds of an invariant\<close>

section \<open>Fallible functions over a state\<close>

text \<open>
  \<open>Json_exception\<close> is a \<open>nlohmann::json::exception\<close>, \<open>Runtime_error\<close> a \<open>std::runtime_error\<close>; both
  are \<open>std::exception\<close>s.  \<open>Undefined\<close> is undefined behaviour of the language: a freed object is
  dereferenced, a signed integer overflows, a precondition of a library function is violated; no
  handler catches it.  \<open>Out_of_fuel\<close> is the model's own: a loop was given too few rounds.
\<close>

datatype failure = Json_exception | Runtime_error string | Undefined | Out_of_fuel

fun std_exception :: "failure \<Rightarrow> bool" where
  "std_exception Json_exception = True"
| "std_exception (Runtime_error _) = True"
| "std_exception Undefined = False"
| "std_exception Out_of_fuel = False"

type_synonym 'a result = "failure + 'a"
type_synonym ('w, 'a) M = "'w \<Rightarrow> 'a result \<times> 'w"

definition mret :: "'a \<Rightarrow> ('w, 'a) M" where
  "mret x = (\<lambda>w. (Inr x, w))"

definition mfail :: "failure \<Rightarrow> ('w, 'a) M" where
  "mfail e = (\<lambda>w. (Inl e, w))"

definition mbind :: "('w, 'a) M \<Rightarrow> ('a \<Rightarrow> ('w, 'b) M) \<Rightarrow> ('w, 'b) M" where
  "mbind m f = (\<lambda>w. case m w of (Inl e, w') \<Rightarrow> (Inl e, w') | (Inr x, w') \<Rightarrow> f x w')"

definition mthen :: "('w, 'a) M \<Rightarrow> ('w, 'b) M \<Rightarrow> ('w, 'b) M" where
  "mthen m m' = mbind m (\<lambda>_. m')"

definition mget :: "('w \<Rightarrow> 'a) \<Rightarrow> ('w, 'a) M" where
  "mget f = (\<lambda>w. (Inr (f w), w))"

definition mmodify :: "('w \<Rightarrow> 'w) \<Rightarrow> ('w, unit) M" where
  "mmodify f = (\<lambda>w. (Inr (), f w))"

definition mlift :: "'a result \<Rightarrow> ('w, 'a) M" where
  "mlift r = (\<lambda>w. (r, w))"

text \<open>\<open>try { m } catch (const std::exception&) { h }\<close>.\<close>

definition mcatch :: "('w, 'a) M \<Rightarrow> ('w, 'a) M \<Rightarrow> ('w, 'a) M" where
  "mcatch m h = (\<lambda>w. case m w of
     (Inl e, w') \<Rightarrow> if std_exception e then h w' else (Inl e, w')
   | (Inr x, w') \<Rightarrow> (Inr x, w'))"

text \<open>
  The scope of an object: its destructor \<open>d\<close> runs when the scope is left, normally or by an exception.
  Where there is no next step, neither is a destructor.
\<close>

definition mfinally :: "('w, 'a) M \<Rightarrow> ('w, unit) M \<Rightarrow> ('w, 'a) M" where
  "mfinally m d = (\<lambda>w. case m w of
     (Inl e, w') \<Rightarrow> if std_exception e then mthen d (mfail e) w' else (Inl e, w')
   | (Inr x, w') \<Rightarrow> mthen d (mret x) w')"

definition mwhen :: "bool \<Rightarrow> ('w, unit) M \<Rightarrow> ('w, unit) M" where
  "mwhen b m = (if b then m else mret ())"

primrec mfor :: "'x list \<Rightarrow> ('x \<Rightarrow> ('w, unit) M) \<Rightarrow> ('w, unit) M" where
  "mfor [] f = mret ()"
| "mfor (x # xs) f = mthen (f x) (mfor xs f)"

primrec mmap :: "('x \<Rightarrow> ('w, 'a) M) \<Rightarrow> 'x list \<Rightarrow> ('w, 'a list) M" where
  "mmap f [] = mret []"
| "mmap f (x # xs) = mbind (f x) (\<lambda>y. mbind (mmap f xs) (\<lambda>ys. mret (y # ys)))"

lemmas m_defs = mret_def mfail_def mbind_def mthen_def mget_def mmodify_def mlift_def mwhen_def

lemma mret_apply [simp]: "mret x w = (Inr x, w)"
  by (simp add: mret_def)

lemma mfail_apply [simp]: "mfail e w = (Inl e, w)"
  by (simp add: mfail_def)

lemma mget_apply [simp]: "mget f w = (Inr (f w), w)"
  by (simp add: mget_def)

lemma mmodify_apply [simp]: "mmodify f w = (Inr (), f w)"
  by (simp add: mmodify_def)

lemma mlift_apply [simp]: "mlift r w = (r, w)"
  by (simp add: mlift_def)

lemma mbind_Inr [simp]: "m w = (Inr x, w') \<Longrightarrow> mbind m f w = f x w'"
  by (simp add: mbind_def)

lemma mbind_Inl [simp]: "m w = (Inl e, w') \<Longrightarrow> mbind m f w = (Inl e, w')"
  by (simp add: mbind_def)

lemma mthen_Inr [simp]: "m w = (Inr x, w') \<Longrightarrow> mthen m m' w = m' w'"
  by (simp add: mthen_def)

lemma mthen_Inl [simp]: "m w = (Inl e, w') \<Longrightarrow> mthen m m' w = (Inl e, w')"
  by (simp add: mthen_def)

lemma mwhen_True [simp]: "mwhen True m = m"
  by (simp add: mwhen_def)

lemma mwhen_False [simp]: "mwhen False m = mret ()"
  by (simp add: mwhen_def)

lemma mcatch_Inr [simp]: "m w = (Inr x, w') \<Longrightarrow> mcatch m h w = (Inr x, w')"
  by (simp add: mcatch_def)

lemma mfinally_Inr [simp]: "m w = (Inr x, w') \<Longrightarrow> mfinally m d w = mthen d (mret x) w'"
  by (simp add: mfinally_def)

lemma mcatch_Inl [simp]:
  "m w = (Inl e, w') \<Longrightarrow> mcatch m h w = (if std_exception e then h w' else (Inl e, w'))"
  by (simp add: mcatch_def)

text \<open>Associativity and the unit laws: statements can be read as a sequence.\<close>

lemma mbind_mret [simp]: "mbind (mret x) f = f x"
  by (rule ext) simp

lemma mbind_assoc: "mbind (mbind m f) g = mbind m (\<lambda>x. mbind (f x) g)"
  by (rule ext) (simp add: mbind_def split: prod.splits sum.splits)

lemma mbind_mret_right [simp]: "mbind m mret = m"
  by (rule ext) (simp add: mbind_def split: prod.splits sum.splits)

lemma mfor_append: "mfor (xs @ ys) f = mthen (mfor xs f) (mfor ys f)"
  by (induction xs) (simp_all add: mthen_def mbind_assoc)

lemma mthen_mret_unit [simp]: "mthen (mret ()) m = m"
  by (simp add: mthen_def)

lemma mfor_cong_set:
  "(\<And>x. x \<in> set xs \<Longrightarrow> f x = g x) \<Longrightarrow> mfor xs f = mfor xs g"
  by (induction xs) auto

text \<open>The same without a state, for the functions that only compute a value or throw.\<close>

definition rbind :: "'a result \<Rightarrow> ('a \<Rightarrow> 'b result) \<Rightarrow> 'b result" where
  "rbind r f = (case r of Inl e \<Rightarrow> Inl e | Inr x \<Rightarrow> f x)"

primrec rmap :: "('a \<Rightarrow> 'b result) \<Rightarrow> 'a list \<Rightarrow> 'b list result" where
  "rmap f [] = Inr []"
| "rmap f (x # xs) = rbind (f x) (\<lambda>y. rbind (rmap f xs) (\<lambda>ys. Inr (y # ys)))"

lemma rbind_Inr [simp]: "rbind (Inr x) f = f x"
  by (simp add: rbind_def)

lemma rbind_Inl [simp]: "rbind (Inl e) f = Inl e"
  by (simp add: rbind_def)

lemma rbind_eq_Inr: "rbind r f = Inr y \<longleftrightarrow> (\<exists>x. r = Inr x \<and> f x = Inr y)"
  by (auto simp: rbind_def split: sum.splits)

lemma rbind_eq_Inl: "rbind r f = Inl e \<longleftrightarrow> r = Inl e \<or> (\<exists>x. r = Inr x \<and> f x = Inl e)"
  by (auto simp: rbind_def split: sum.splits)

lemma rmap_eq_Inr: "rmap f xs = Inr ys \<longleftrightarrow> list_all2 (\<lambda>x y. f x = Inr y) xs ys"
proof (induction xs arbitrary: ys)
  case (Cons x xs)
  then show ?case by (cases ys) (auto simp: rbind_eq_Inr)
qed auto

lemma rmap_eq_Inl:
  "rmap f xs = Inl e \<Longrightarrow>
   \<exists>i < length xs. f (xs ! i) = Inl e \<and> (\<forall>j < i. \<exists>y. f (xs ! j) = Inr y)"
proof (induction xs)
  case (Cons x xs)
  show ?case
  proof (cases "f x")
    case (Inl e')
    with Cons.prems show ?thesis by (intro exI [of _ 0]) simp
  next
    case (Inr y)
    with Cons.prems have "rmap f xs = Inl e" by (auto simp: rbind_eq_Inl)
    from Cons.IH [OF this] obtain i where "i < length xs" "f (xs ! i) = Inl e"
      "\<forall>j < i. \<exists>y. f (xs ! j) = Inr y" by blast
    with Inr show ?thesis
      by (intro exI [of _ "Suc i"]) (auto simp: less_Suc_eq_0_disj)
  qed
qed simp

section \<open>Frames, invariants and failures\<close>

text \<open>
  \<open>keeps f m\<close>: whatever \<open>m\<close> does, and however it ends, the part \<open>f\<close> of the world is as before.
  \<open>invar I m\<close>: \<open>m\<close> keeps \<open>I\<close>, however it ends.  \<open>only_fails S m\<close>: a failure of \<open>m\<close> is in \<open>S\<close>.
\<close>

definition keeps :: "('w \<Rightarrow> 'b) \<Rightarrow> ('w, 'a) M \<Rightarrow> bool" where
  "keeps f m \<longleftrightarrow> (\<forall>w. f (snd (m w)) = f w)"

definition invar :: "('w \<Rightarrow> bool) \<Rightarrow> ('w, 'a) M \<Rightarrow> bool" where
  "invar I m \<longleftrightarrow> (\<forall>w. I w \<longrightarrow> I (snd (m w)))"

definition only_fails :: "failure set \<Rightarrow> ('w, 'a) M \<Rightarrow> bool" where
  "only_fails S m \<longleftrightarrow> (\<forall>w. case fst (m w) of Inl e \<Rightarrow> e \<in> S | Inr _ \<Rightarrow> True)"

lemma keepsD: "keeps f m \<Longrightarrow> m w = (r, w') \<Longrightarrow> f w' = f w"
  unfolding keeps_def by (metis snd_conv)

lemma keeps_snd: "keeps f m \<Longrightarrow> f (snd (m w)) = f w"
  by (simp add: keeps_def)

lemma invarD: "invar I m \<Longrightarrow> I w \<Longrightarrow> m w = (r, w') \<Longrightarrow> I w'"
  unfolding invar_def by (metis snd_conv)

lemma only_failsD: "only_fails S m \<Longrightarrow> m w = (Inl e, w') \<Longrightarrow> e \<in> S"
  unfolding only_fails_def by (metis fst_conv sum.simps(5))

lemma keeps_iff_invar: "keeps f m \<longleftrightarrow> (\<forall>c. invar (\<lambda>w. f w = c) m)"
  by (auto simp: keeps_def invar_def)

lemma keeps_invar: "keeps f m \<Longrightarrow> invar (\<lambda>w. P (f w)) m"
  by (simp add: keeps_def invar_def)

lemma keeps_mret [frame]: "keeps f (mret x)"
  by (simp add: keeps_def)

lemma keeps_mfail [frame]: "keeps f (mfail e)"
  by (simp add: keeps_def)

lemma keeps_mget [frame]: "keeps f (mget g)"
  by (simp add: keeps_def)

lemma keeps_mlift [frame]: "keeps f (mlift r)"
  by (simp add: keeps_def)

lemma keeps_mmodify [frame]: "(\<And>w. f (g w) = f w) \<Longrightarrow> keeps f (mmodify g)"
  by (simp add: keeps_def)

lemma keeps_mbind [frame]:
  assumes "keeps f m" and "\<And>x. keeps f (g x)"
  shows "keeps f (mbind m g)"
  using assms by (auto simp: keeps_def mbind_def split: prod.splits sum.splits)
    (metis snd_conv)+

lemma keeps_mthen [frame]: "keeps f m \<Longrightarrow> keeps f m' \<Longrightarrow> keeps f (mthen m m')"
  unfolding mthen_def by (rule keeps_mbind)

lemma keeps_mcatch [frame]:
  assumes "keeps f m" and "keeps f h"
  shows "keeps f (mcatch m h)"
  using assms by (auto simp: keeps_def mcatch_def split: prod.splits sum.splits)
    (metis snd_conv)+

lemma keeps_mwhen [frame]: "keeps f m \<Longrightarrow> keeps f (mwhen b m)"
  by (simp add: mwhen_def keeps_mret)

lemma keeps_if [frame]: "keeps f m \<Longrightarrow> keeps f m' \<Longrightarrow> keeps f (if b then m else m')"
  by simp

lemma keeps_option [frame]:
  "keeps f m \<Longrightarrow> (\<And>x. keeps f (g x)) \<Longrightarrow> keeps f (case x of None \<Rightarrow> m | Some y \<Rightarrow> g y)"
  by (cases x) auto

lemma keeps_mfor [frame]: "(\<And>x. keeps f (g x)) \<Longrightarrow> keeps f (mfor xs g)"
  by (induction xs) (auto intro: frame)

lemma keeps_mmap [frame]: "(\<And>x. keeps f (g x)) \<Longrightarrow> keeps f (mmap g xs)"
  by (induction xs) (auto intro: frame)

lemma invar_conj: "invar I m \<Longrightarrow> invar K m \<Longrightarrow> invar (\<lambda>w. I w \<and> K w) m"
  by (simp add: invar_def)

lemma invar_mret [frame]: "invar I (mret x)"
  by (simp add: invar_def)

lemma invar_mfail [frame]: "invar I (mfail e)"
  by (simp add: invar_def)

lemma invar_mget [frame]: "invar I (mget g)"
  by (simp add: invar_def)

lemma invar_mlift [frame]: "invar I (mlift r)"
  by (simp add: invar_def)

lemma invar_mmodify: "(\<And>w. I w \<Longrightarrow> I (g w)) \<Longrightarrow> invar I (mmodify g)"
  by (simp add: invar_def)

lemma invar_mbind [frame]:
  assumes "invar I m" and "\<And>x. invar I (g x)"
  shows "invar I (mbind m g)"
  using assms unfolding invar_def mbind_def by (fastforce split: prod.splits sum.splits)

lemma invar_mthen [frame]: "invar I m \<Longrightarrow> invar I m' \<Longrightarrow> invar I (mthen m m')"
  unfolding mthen_def by (rule invar_mbind)

lemma invar_mcatch [frame]:
  assumes "invar I m" and "invar I h"
  shows "invar I (mcatch m h)"
  using assms unfolding invar_def mcatch_def by (fastforce split: prod.splits sum.splits)

lemma invar_mwhen [frame]: "(b \<Longrightarrow> invar I m) \<Longrightarrow> invar I (mwhen b m)"
  by (simp add: mwhen_def invar_mret)

lemma invar_if [frame]:
  "(b \<Longrightarrow> invar I m) \<Longrightarrow> (\<not> b \<Longrightarrow> invar I m') \<Longrightarrow> invar I (if b then m else m')"
  by simp

lemma invar_option [frame]:
  "invar I m \<Longrightarrow> (\<And>x. invar I (g x)) \<Longrightarrow> invar I (case x of None \<Rightarrow> m | Some y \<Rightarrow> g y)"
  by (cases x) auto

lemma invar_mfor [frame]: "(\<And>x. x \<in> set xs \<Longrightarrow> invar I (g x)) \<Longrightarrow> invar I (mfor xs g)"
  by (induction xs) (auto intro: frame)

lemma invar_mmap [frame]: "(\<And>x. x \<in> set xs \<Longrightarrow> invar I (g x)) \<Longrightarrow> invar I (mmap g xs)"
  by (induction xs) (auto intro: frame)

lemma only_fails_iff: "only_fails S m \<longleftrightarrow> (\<forall>w e w'. m w = (Inl e, w') \<longrightarrow> e \<in> S)"
  unfolding only_fails_def by (auto split: sum.splits) (metis fst_conv surj_pair)+

lemma only_fails_mret [safe]: "only_fails S (mret x)"
  by (simp add: only_fails_def)

lemma only_fails_mfail [safe]: "e \<in> S \<Longrightarrow> only_fails S (mfail e)"
  by (simp add: only_fails_def)

lemma only_fails_mget [safe]: "only_fails S (mget g)"
  by (simp add: only_fails_def)

lemma only_fails_mmodify [safe]: "only_fails S (mmodify g)"
  by (simp add: only_fails_def)

lemma only_fails_mlift: "(\<And>e. r = Inl e \<Longrightarrow> e \<in> S) \<Longrightarrow> only_fails S (mlift r)"
  by (auto simp: only_fails_def split: sum.splits)

lemma only_fails_mbind [safe]:
  assumes "only_fails S m" and "\<And>x. only_fails S (g x)"
  shows "only_fails S (mbind m g)"
  using assms unfolding only_fails_iff mbind_def by (fastforce split: prod.splits sum.splits)

lemma only_fails_mthen [safe]:
  "only_fails S m \<Longrightarrow> only_fails S m' \<Longrightarrow> only_fails S (mthen m m')"
  unfolding mthen_def by (rule only_fails_mbind)

lemma only_fails_mwhen [safe]: "(b \<Longrightarrow> only_fails S m) \<Longrightarrow> only_fails S (mwhen b m)"
  by (simp add: mwhen_def only_fails_mret)

lemma only_fails_if [safe]:
  "(b \<Longrightarrow> only_fails S m) \<Longrightarrow> (\<not> b \<Longrightarrow> only_fails S m') \<Longrightarrow> only_fails S (if b then m else m')"
  by simp

lemma only_fails_option [safe]:
  "only_fails S m \<Longrightarrow> (\<And>x. only_fails S (g x)) \<Longrightarrow>
   only_fails S (case x of None \<Rightarrow> m | Some y \<Rightarrow> g y)"
  by (cases x) auto

lemma only_fails_mfor [safe]: "(\<And>x. only_fails S (g x)) \<Longrightarrow> only_fails S (mfor xs g)"
  by (induction xs) (auto intro: safe)

lemma only_fails_mmap [safe]: "(\<And>x. only_fails S (g x)) \<Longrightarrow> only_fails S (mmap g xs)"
  by (induction xs) (auto intro: safe)

text \<open>A handler turns every failure that a \<open>catch (std::exception)\<close> sees into those of the handler.\<close>

lemma only_fails_mcatch [safe]:
  assumes "only_fails S m" and "only_fails T h" and "\<And>e. e \<in> S \<Longrightarrow> \<not> std_exception e \<Longrightarrow> e \<in> T"
  shows "only_fails T (mcatch m h)"
  using assms unfolding only_fails_iff mcatch_def
  by (auto split: prod.splits sum.splits if_splits) blast

lemma only_fails_mfinally [safe]:
  assumes "only_fails S m" and "only_fails S d"
  shows "only_fails S (mfinally m d)"
  using assms unfolding only_fails_iff mfinally_def mthen_def mbind_def
  by (fastforce split: prod.splits sum.splits if_splits)

lemma only_fails_mono: "only_fails S m \<Longrightarrow> S \<subseteq> T \<Longrightarrow> only_fails T m"
  by (fastforce simp: only_fails_def split: sum.splits)

lemma only_fails_UNIV: "only_fails UNIV m"
  by (simp add: only_fails_def split: sum.splits)

text \<open>
  The same for the worlds that satisfy \<open>I\<close>: \<open>safe_under I S m\<close>.  The rules also ask for the invariance of
  \<open>I\<close>, because what comes second runs in the world that came out.
\<close>

definition safe_under :: "('w \<Rightarrow> bool) \<Rightarrow> failure set \<Rightarrow> ('w, 'a) M \<Rightarrow> bool" where
  "safe_under I S m \<longleftrightarrow> (\<forall>w e w'. I w \<longrightarrow> m w = (Inl e, w') \<longrightarrow> e \<in> S)"

lemma safe_underD: "safe_under I S m \<Longrightarrow> I w \<Longrightarrow> m w = (Inl e, w') \<Longrightarrow> e \<in> S"
  by (simp add: safe_under_def)

lemma under_only_fails: "only_fails S m \<Longrightarrow> safe_under I S m"
  by (simp add: safe_under_def only_fails_iff)

lemma under_mono: "safe_under I S m \<Longrightarrow> (\<And>w. K w \<Longrightarrow> I w) \<Longrightarrow> safe_under K S m"
  unfolding safe_under_def by blast

lemma under_mbind [under]:
  assumes "safe_under I S m" and "invar I m" and "\<And>x. safe_under I S (g x)"
  shows "safe_under I S (mbind m g)"
  using assms unfolding safe_under_def invar_def mbind_def
  by (fastforce split: prod.splits sum.splits)

lemma under_mthen [under]:
  "safe_under I S m \<Longrightarrow> invar I m \<Longrightarrow> safe_under I S m' \<Longrightarrow> safe_under I S (mthen m m')"
  unfolding mthen_def by (rule under_mbind)

lemma under_if [under]:
  "(b \<Longrightarrow> safe_under I S m) \<Longrightarrow> (\<not> b \<Longrightarrow> safe_under I S m') \<Longrightarrow> safe_under I S (if b then m else m')"
  by simp

lemma under_mwhen [under]: "(b \<Longrightarrow> safe_under I S m) \<Longrightarrow> safe_under I S (mwhen b m)"
  by (simp add: mwhen_def safe_under_def mret_def)

lemma under_option [under]:
  "safe_under I S m \<Longrightarrow> (\<And>x. safe_under I S (g x)) \<Longrightarrow>
   safe_under I S (case x of None \<Rightarrow> m | Some y \<Rightarrow> g y)"
  by (cases x) auto

lemma under_mfor [under]:
  "(\<And>x. safe_under I S (g x)) \<Longrightarrow> (\<And>x. invar I (g x)) \<Longrightarrow> safe_under I S (mfor xs g)"
proof (induction xs)
  case Nil
  show ?case by (simp add: safe_under_def mret_def)
next
  case (Cons x xs)
  then show ?case by (auto intro!: under intro: frame)
qed

section \<open>Strings\<close>

text \<open>Bytes of a \<open>std::string\<close> are characters; the newline and carriage return have names.\<close>

abbreviation newline :: char where "newline \<equiv> CHR 0x0A"
abbreviation carriage_return :: char where "carriage_return \<equiv> CHR 0x0D"

definition digit_char :: "nat \<Rightarrow> char" where
  "digit_char d = (char_of (if d < 10 then 48 + d else 87 + d))"

definition digit_value :: "char \<Rightarrow> nat" where
  "digit_value c = (let n = (of_char c :: nat) in if n < 58 then n - 48 else n - 87)"

text \<open>Printing in base \<open>b\<close>, most significant digit first, without leading zeros.\<close>

fun show_base :: "nat \<Rightarrow> nat \<Rightarrow> string" where
  "show_base b n =
     (if n < b \<or> b < 2 then [digit_char n] else show_base b (n div b) @ [digit_char (n mod b)])"

declare show_base.simps [simp del]

definition read_base :: "nat \<Rightarrow> string \<Rightarrow> nat" where
  "read_base b s = foldl (\<lambda>acc c. b * acc + digit_value c) 0 s"

text \<open>\<open>std::to_string\<close> of an unsigned and of a signed integer.\<close>

definition show_nat :: "nat \<Rightarrow> string" where
  "show_nat n = show_base 10 n"

definition show_int :: "int \<Rightarrow> string" where
  "show_int i = (if i < 0 then CHR ''-'' # show_nat (nat (- i)) else show_nat (nat i))"

text \<open>\<open>oss << std::hex << std::setfill('0') << std::setw(n) << v\<close>: padded on the left, never cut.\<close>

definition show_hex_padded :: "nat \<Rightarrow> nat \<Rightarrow> string" where
  "show_hex_padded width v =
     (let s = show_base 16 v in replicate (width - length s) (CHR ''0'') @ s)"

lemma digit_value_char [simp]: "d < 36 \<Longrightarrow> digit_value (digit_char d) = d"
  by (simp add: digit_value_def digit_char_def)

lemma digit_char_0 [simp]: "digit_char 0 = CHR ''0''"
  by code_simp

lemma read_base_snoc [simp]: "read_base b (s @ [c]) = b * read_base b s + digit_value c"
  by (simp add: read_base_def)

lemma read_base_zeros [simp]: "read_base b (replicate k (CHR ''0'') @ s) = read_base b s"
proof (induction k)
  case (Suc k)
  then show ?case by (simp add: read_base_def digit_value_def)
qed simp

lemma read_show_base: "2 \<le> b \<Longrightarrow> b \<le> 36 \<Longrightarrow> read_base b (show_base b n) = n"
proof (induction b n rule: show_base.induct)
  case (1 b n)
  show ?case
  proof (cases "n < b")
    case True
    with 1 show ?thesis
      by (subst show_base.simps) (simp add: read_base_def)
  next
    case False
    then have "show_base b n = show_base b (n div b) @ [digit_char (n mod b)]"
      using "1.prems" by (subst show_base.simps) simp
    moreover have "n mod b < 36"
      using "1.prems" by (metis less_le_trans mod_less_divisor not_numeral_le_zero not_gr_zero)
    moreover have "read_base b (show_base b (n div b)) = n div b"
      using 1 False by simp
    ultimately show ?thesis by simp
  qed
qed

lemma show_base_inject: "2 \<le> b \<Longrightarrow> b \<le> 36 \<Longrightarrow> show_base b m = show_base b n \<longleftrightarrow> m = n"
  by (metis read_show_base)

lemma show_nat_inject [simp]: "show_nat m = show_nat n \<longleftrightarrow> m = n"
  by (simp add: show_nat_def show_base_inject)

text \<open>\<open>std::string::find\<close> of a character, \<open>None\<close> for \<open>npos\<close>.\<close>

fun find_char :: "char \<Rightarrow> string \<Rightarrow> nat option" where
  "find_char c [] = None"
| "find_char c (x # xs) = (if x = c then Some 0 else map_option Suc (find_char c xs))"

lemma find_char_None [simp]: "find_char c s = None \<longleftrightarrow> c \<notin> set s"
  by (induction s) auto

lemma find_char_notin [simp]: "c \<notin> set s \<Longrightarrow> find_char c s = None"
  by simp

lemma find_char_Some:
  "find_char c s = Some n \<longleftrightarrow> n < length s \<and> s ! n = c \<and> c \<notin> set (take n s)"
proof (induction s arbitrary: n)
  case (Cons x xs)
  then show ?case by (cases n) auto
qed simp

lemma find_char_append: "c \<notin> set s \<Longrightarrow> find_char c (s @ c # t) = Some (length s)"
  by (induction s) auto

section \<open>Association lists\<close>

text \<open>\<open>unordered_map\<close> and \<open>map\<close> are association lists: lookup is \<open>map_of\<close>.\<close>

lemma map_of_update [simp]: "map_of (AList.update k v xs) = (map_of xs)(k \<mapsto> v)"
  by (rule update_conv')

lemma map_of_delete [simp]: "map_of (AList.delete k xs) = (map_of xs)(k := None)"
  by (rule delete_conv')

section \<open>Uninitialised variables\<close>

text \<open>
  The initial contents of variables that the program declares without an initialiser: an argument
  of the functions that do so, so that every statement holds for all contents.
\<close>

record garbage =
  any_int :: int
  any_bool :: bool
  any_u16 :: "16 word"
  any_u64 :: "64 word"

end
