(* ===== verification/Json_Interface.thy ===== *)
theory Json_Interface
  imports Prelude
begin

text \<open>
  The JSON library the program calls, \<open>nlohmann::json\<close>, is not part of the repository.  Its value
  type is a type variable \<open>'j\<close> and its operations are the fields of a record, an argument of every
  definition that uses them.  An operation that can throw returns a \<open>result\<close>; \<open>Undefined\<close> stands
  for a violated precondition of the library.  The locale \<open>json_library\<close> collects what the library
  documents and the program relies on.

  \<^item> \<open>json_parse\<close>: \<open>json::parse\<close> and \<open>file >> j\<close>, throwing \<open>parse_error\<close>;
  \<^item> \<open>json_contains\<close>, \<open>json_is_null\<close>, \<open>json_is_object\<close>, \<open>json_is_array\<close>, \<open>json_is_string\<close>,
    \<open>json_empty\<close>, \<open>json_size\<close>: the members of these names;
  \<^item> \<open>json_key\<close>: \<open>operator[](key) const\<close>; \<open>json_key_mut\<close>: \<open>operator[](key)\<close> on a value that may be
    written, which yields null for an absent key; \<open>json_index\<close>: \<open>operator[](size_type) const\<close>;
  \<^item> \<open>json_string\<close>, \<open>json_int\<close>, \<open>json_u64\<close>, \<open>json_u16\<close>, \<open>json_bool\<close>: \<open>get_to\<close>, \<open>get\<close> and the
    implicit conversions to the C++ types, throwing \<open>type_error\<close>;
  \<^item> \<open>json_elements\<close>: what a range-based \<open>for\<close> visits;
  \<^item> \<open>json_of_int\<close>, \<open>json_set\<close>, \<open>json_dump\<close>: construction, \<open>j[key] = value\<close>, \<open>dump\<close>, which throws on
    strings that are not UTF-8.
\<close>

record 'j json_lib =
  json_parse :: "string \<Rightarrow> 'j result"
  json_null :: 'j
  json_is_null :: "'j \<Rightarrow> bool"
  json_is_object :: "'j \<Rightarrow> bool"
  json_is_array :: "'j \<Rightarrow> bool"
  json_is_string :: "'j \<Rightarrow> bool"
  json_empty :: "'j \<Rightarrow> bool"
  json_size :: "'j \<Rightarrow> nat"
  json_contains :: "'j \<Rightarrow> string \<Rightarrow> bool"
  json_key :: "'j \<Rightarrow> string \<Rightarrow> 'j result"
  json_key_mut :: "'j \<Rightarrow> string \<Rightarrow> 'j result"
  json_index :: "'j \<Rightarrow> nat \<Rightarrow> 'j result"
  json_string :: "'j \<Rightarrow> string result"
  json_int :: "'j \<Rightarrow> int result"
  json_u64 :: "'j \<Rightarrow> 64 word result"
  json_u16 :: "'j \<Rightarrow> 16 word result"
  json_bool :: "'j \<Rightarrow> bool result"
  json_elements :: "'j \<Rightarrow> 'j list"
  json_of_int :: "int \<Rightarrow> 'j"
  json_set :: "'j \<Rightarrow> string \<Rightarrow> 'j \<Rightarrow> 'j result"
  json_dump :: "'j \<Rightarrow> string result"

text \<open>
  The documented behaviour.  Converting a value to a C++ type, parsing and indexing by key either
  return or throw an exception of the library; an index by key through a constant reference has the
  precondition that the key is present.
\<close>

locale json_library =
  fixes J :: "'j json_lib"
  assumes parse_fails: "json_parse J s = Inl e \<Longrightarrow> e = Json_exception"
    and string_fails: "json_string J j = Inl e \<Longrightarrow> e = Json_exception"
    and int_fails: "json_int J j = Inl e \<Longrightarrow> e = Json_exception"
    and u64_fails: "json_u64 J j = Inl e \<Longrightarrow> e = Json_exception"
    and u16_fails: "json_u16 J j = Inl e \<Longrightarrow> e = Json_exception"
    and bool_fails: "json_bool J j = Inl e \<Longrightarrow> e = Json_exception"
    and null_is_null: "json_is_null J (json_null J)"
    and null_not_object: "json_is_null J j \<Longrightarrow> \<not> json_is_object J j"
    and null_not_array: "json_is_null J j \<Longrightarrow> \<not> json_is_array J j"
    and null_no_int: "json_is_null J j \<Longrightarrow> json_int J j = Inl Json_exception"
    and null_no_u64: "json_is_null J j \<Longrightarrow> json_u64 J j = Inl Json_exception"
    and null_no_string: "json_is_null J j \<Longrightarrow> json_string J j = Inl Json_exception"
    and is_string_iff: "json_is_string J j \<longleftrightarrow> (\<exists>s. json_string J j = Inr s)"
    and contains_object: "json_contains J j k \<Longrightarrow> json_is_object J j"
    and key_present: "json_contains J j k \<Longrightarrow> \<exists>v. json_key J j k = Inr v"
    and key_absent:
      "json_is_object J j \<Longrightarrow> \<not> json_contains J j k \<Longrightarrow> json_key J j k = Inl Undefined"
    and key_no_object: "\<not> json_is_object J j \<Longrightarrow> json_key J j k = Inl Json_exception"
    and key_mut_present: "json_contains J j k \<Longrightarrow> json_key_mut J j k = json_key J j k"
    and key_mut_absent:
      "json_is_object J j \<Longrightarrow> \<not> json_contains J j k \<Longrightarrow> json_key_mut J j k = Inr (json_null J)"
    and index_in_range:
      "json_is_array J j \<Longrightarrow> n < json_size J j \<Longrightarrow> \<exists>v. json_index J j n = Inr v"
    and set_ok: "json_is_null J j \<or> json_is_object J j \<Longrightarrow> \<exists>j'. json_set J j k v = Inr j'"
    and set_object: "json_set J j k v = Inr j' \<Longrightarrow> json_is_object J j'"
    and set_contains:
      "json_set J j k v = Inr j' \<Longrightarrow> json_contains J j' k' \<longleftrightarrow> k' = k \<or> json_contains J j k'"
    and set_key: "json_set J j k v = Inr j' \<Longrightarrow> json_key J j' k = Inr v"
    and set_other: "json_set J j k v = Inr j' \<Longrightarrow> k' \<noteq> k \<Longrightarrow> json_contains J j k' \<Longrightarrow>
      json_key J j' k' = json_key J j k'"
    and dump_fails: "json_dump J j = Inl e \<Longrightarrow> e = Json_exception"
    and int_of_int: "- 2147483648 \<le> i \<Longrightarrow> i \<le> 2147483647 \<Longrightarrow> json_int J (json_of_int J i) = Inr i"
begin

lemmas conversions_fail = parse_fails string_fails int_fails u64_fails u16_fails bool_fails dump_fails

lemma key_mut_of_contains: "json_contains J j k \<Longrightarrow> \<exists>v. json_key_mut J j k = Inr v"
  using key_present key_mut_present by auto

lemma set_other_absent: "json_set J j k v = Inr j' \<Longrightarrow> \<not> json_contains J j k' \<Longrightarrow> k' \<noteq> k \<Longrightarrow>
  \<not> json_contains J j' k'"
  using set_contains by blast

lemma null_contains: "json_is_null J j \<Longrightarrow> \<not> json_contains J j k"
  using contains_object null_not_object by blast

end

end
