(* ===== verification/Json_Reference.thy ===== *)
theory Json_Reference
  imports Json_Interface
begin

text \<open>
  A small JSON library that has the documented behaviour of \<open>Json_Interface\<close>: values without
  floating-point numbers, texts without escape sequences.  The statements about the program are
  about every library; this one is what their concrete instances are evaluated on, and it shows that
  the documented laws can hold together.
\<close>

section \<open>Values\<close>

datatype json =
  Null | Bool bool | Number int | Text string | Array "json list" | Object "(string \<times> json) list"

definition as_int :: "int \<Rightarrow> int" where
  "as_int i = (i + 2147483648) mod 4294967296 - 2147483648"

fun number_of :: "json \<Rightarrow> int result" where
  "number_of (Number i) = Inr i"
| "number_of (Bool b) = Inr (if b then 1 else 0)"
| "number_of _ = Inl Json_exception"

fun text_of :: "json \<Rightarrow> string result" where
  "text_of (Text s) = Inr s"
| "text_of _ = Inl Json_exception"

fun bool_of :: "json \<Rightarrow> bool result" where
  "bool_of (Bool b) = Inr b"
| "bool_of _ = Inl Json_exception"

fun member :: "json \<Rightarrow> string \<Rightarrow> json option" where
  "member (Object m) k = map_of m k"
| "member _ k = None"

fun is_object :: "json \<Rightarrow> bool" where
  "is_object (Object m) = True"
| "is_object _ = False"

fun is_array :: "json \<Rightarrow> bool" where
  "is_array (Array xs) = True"
| "is_array _ = False"

fun is_text :: "json \<Rightarrow> bool" where
  "is_text (Text s) = True"
| "is_text _ = False"

fun size_of :: "json \<Rightarrow> nat" where
  "size_of Null = 0"
| "size_of (Array xs) = length xs"
| "size_of (Object m) = length m"
| "size_of _ = 1"

fun key_of_const :: "json \<Rightarrow> string \<Rightarrow> json result" where
  "key_of_const (Object m) k = (case map_of m k of None \<Rightarrow> Inl Undefined | Some v \<Rightarrow> Inr v)"
| "key_of_const _ k = Inl Json_exception"

fun key_of_mutable :: "json \<Rightarrow> string \<Rightarrow> json result" where
  "key_of_mutable (Object m) k = (case map_of m k of None \<Rightarrow> Inr Null | Some v \<Rightarrow> Inr v)"
| "key_of_mutable Null k = Inr Null"
| "key_of_mutable _ k = Inl Json_exception"

fun element_at :: "json \<Rightarrow> nat \<Rightarrow> json result" where
  "element_at (Array xs) n = (if n < length xs then Inr (xs ! n) else Inl Undefined)"
| "element_at _ n = Inl Json_exception"

fun elements :: "json \<Rightarrow> json list" where
  "elements Null = []"
| "elements (Array xs) = xs"
| "elements (Object m) = map snd m"
| "elements j = [j]"

fun with_key :: "json \<Rightarrow> string \<Rightarrow> json \<Rightarrow> json result" where
  "with_key Null k v = Inr (Object [(k, v)])"
| "with_key (Object m) k v = Inr (Object (AList.update k v m))"
| "with_key _ k v = Inl Json_exception"

section \<open>Reading and printing\<close>

definition quote :: char where "quote = CHR 0x22"

fun skip_spaces :: "string \<Rightarrow> string" where
  "skip_spaces [] = []"
| "skip_spaces (c # cs) =
     (if c = CHR '' '' \<or> c = newline \<or> c = carriage_return then skip_spaces cs else c # cs)"

definition json_digit :: "char \<Rightarrow> bool" where
  "json_digit c \<longleftrightarrow> 48 \<le> (of_char c :: nat) \<and> (of_char c :: nat) \<le> 57"

definition read_digits :: "string \<Rightarrow> (nat \<times> string) option" where
  "read_digits s =
     (let ds = takeWhile json_digit s in
      if ds = [] then None else Some (read_base 10 ds, dropWhile json_digit s))"

definition read_text :: "string \<Rightarrow> (string \<times> string) option" where
  "read_text s =
     (case dropWhile (\<lambda>c. c \<noteq> quote) s of
        [] \<Rightarrow> None | q # rest \<Rightarrow> Some (takeWhile (\<lambda>c. c \<noteq> quote) s, rest))"

text \<open>One round of fuel is spent on every value, element and member.\<close>

fun read_value :: "nat \<Rightarrow> string \<Rightarrow> (json \<times> string) option"
  and read_elements :: "nat \<Rightarrow> string \<Rightarrow> (json list \<times> string) option"
  and read_members :: "nat \<Rightarrow> string \<Rightarrow> ((string \<times> json) list \<times> string) option" where
  "read_value 0 s = None"
| "read_value (Suc n) s =
     (case skip_spaces s of
        [] \<Rightarrow> None
      | c # cs \<Rightarrow>
          if c = quote then map_option (\<lambda>(t, r). (Text t, r)) (read_text cs)
          else if c = CHR ''['' then
            (case skip_spaces cs of
               d # ds \<Rightarrow> if d = CHR '']'' then Some (Array [], ds)
                         else map_option (\<lambda>(xs, r). (Array xs, r)) (read_elements n cs)
             | [] \<Rightarrow> None)
          else if c = CHR ''{'' then
            (case skip_spaces cs of
               d # ds \<Rightarrow> if d = CHR ''}'' then Some (Object [], ds)
                         else map_option (\<lambda>(m, r). (Object m, r)) (read_members n cs)
             | [] \<Rightarrow> None)
          else if c = CHR ''-'' then map_option (\<lambda>(i, r). (Number (- int i), r)) (read_digits cs)
          else if json_digit c then map_option (\<lambda>(i, r). (Number (int i), r)) (read_digits (c # cs))
          else if take 4 (c # cs) = ''true'' then Some (Bool True, drop 4 (c # cs))
          else if take 5 (c # cs) = ''false'' then Some (Bool False, drop 5 (c # cs))
          else if take 4 (c # cs) = ''null'' then Some (Null, drop 4 (c # cs))
          else None)"
| "read_elements 0 s = None"
| "read_elements (Suc n) s =
     (case read_value n s of
        None \<Rightarrow> None
      | Some (x, r) \<Rightarrow>
          (case skip_spaces r of
             [] \<Rightarrow> None
           | c # cs \<Rightarrow>
               if c = CHR '']'' then Some ([x], cs)
               else if c = CHR '','' then map_option (\<lambda>(xs, r). (x # xs, r)) (read_elements n cs)
               else None))"
| "read_members 0 s = None"
| "read_members (Suc n) s =
     (case skip_spaces s of
        [] \<Rightarrow> None
      | c # cs \<Rightarrow>
          if c \<noteq> quote then None
          else (case read_text cs of
             None \<Rightarrow> None
           | Some (k, r) \<Rightarrow>
               (case skip_spaces r of
                  [] \<Rightarrow> None
                | c # cs \<Rightarrow>
                    if c \<noteq> CHR '':'' then None
                    else (case read_value n cs of
                       None \<Rightarrow> None
                     | Some (v, r) \<Rightarrow>
                         (case skip_spaces r of
                            [] \<Rightarrow> None
                          | c # cs \<Rightarrow>
                              if c = CHR ''}'' then Some ([(k, v)], cs)
                              else if c = CHR '','' then
                                map_option (\<lambda>(m, r). ((k, v) # m, r)) (read_members n cs)
                              else None)))))"

definition read_json :: "string \<Rightarrow> json result" where
  "read_json s =
     (case read_value (Suc (length s)) s of
        None \<Rightarrow> Inl Json_exception
      | Some (j, r) \<Rightarrow> if skip_spaces r = [] then Inr j else Inl Json_exception)"

fun separated :: "string list \<Rightarrow> string" where
  "separated [] = []"
| "separated [s] = s"
| "separated (s # ss) = s @ '','' @ separated ss"

fun print_json :: "json \<Rightarrow> string" where
  "print_json Null = ''null''"
| "print_json (Bool b) = (if b then ''true'' else ''false'')"
| "print_json (Number i) = show_int i"
| "print_json (Text s) = quote # s @ [quote]"
| "print_json (Array xs) = ''['' @ separated (map print_json xs) @ '']''"
| "print_json (Object m) =
     ''{'' @ separated (map (\<lambda>(k, v). quote # k @ [quote] @ '':'' @ print_json v) m) @ ''}''"

section \<open>The library\<close>

definition ref_json :: "json json_lib" where
  "ref_json =
     \<lparr>json_parse = read_json,
      json_null = Null,
      json_is_null = (\<lambda>j. j = Null),
      json_is_object = is_object,
      json_is_array = is_array,
      json_is_string = is_text,
      json_empty = (\<lambda>j. size_of j = 0),
      json_size = size_of,
      json_contains = (\<lambda>j k. member j k \<noteq> None),
      json_key = key_of_const,
      json_key_mut = key_of_mutable,
      json_index = element_at,
      json_string = text_of,
      json_int = (\<lambda>j. rbind (number_of j) (\<lambda>i. Inr (as_int i))),
      json_u64 = (\<lambda>j. rbind (number_of j) (\<lambda>i. Inr (word_of_int i))),
      json_u16 = (\<lambda>j. rbind (number_of j) (\<lambda>i. Inr (word_of_int i))),
      json_bool = bool_of,
      json_elements = elements,
      json_of_int = Number,
      json_set = with_key,
      json_dump = (\<lambda>j. Inr (print_json j))\<rparr>"

lemma ref_json_fields [simp]:
  "json_parse ref_json = read_json" "json_null ref_json = Null"
  "json_is_null ref_json j \<longleftrightarrow> j = Null" "json_is_object ref_json = is_object"
  "json_is_array ref_json = is_array" "json_is_string ref_json = is_text"
  "json_empty ref_json j \<longleftrightarrow> size_of j = 0" "json_size ref_json = size_of"
  "json_contains ref_json j k \<longleftrightarrow> member j k \<noteq> None" "json_key ref_json = key_of_const"
  "json_key_mut ref_json = key_of_mutable" "json_index ref_json = element_at"
  "json_string ref_json = text_of"
  "json_int ref_json j = rbind (number_of j) (\<lambda>i. Inr (as_int i))"
  "json_u64 ref_json j = rbind (number_of j) (\<lambda>i. Inr (word_of_int i))"
  "json_u16 ref_json j = rbind (number_of j) (\<lambda>i. Inr (word_of_int i))"
  "json_bool ref_json = bool_of" "json_elements ref_json = elements"
  "json_of_int ref_json = Number" "json_set ref_json = with_key"
  "json_dump ref_json j = Inr (print_json j)"
  by (simp_all add: ref_json_def)

lemma read_json_fails: "read_json s = Inl e \<Longrightarrow> e = Json_exception"
  by (auto simp: read_json_def split: option.splits if_splits)

lemma conversions_of_fail:
  "number_of j = Inl e \<Longrightarrow> e = Json_exception" "text_of j = Inl e \<Longrightarrow> e = Json_exception"
  "bool_of j = Inl e \<Longrightarrow> e = Json_exception"
  by (cases j; simp)+

lemma is_text_iff: "is_text j \<longleftrightarrow> (\<exists>s. text_of j = Inr s)"
  by (cases j) simp_all

lemma member_object: "member j k = Some v \<Longrightarrow> is_object j \<and> key_of_const j k = Inr v \<and> key_of_mutable j k = Inr v"
  by (cases j) simp_all

lemma member_absent:
  "is_object j \<Longrightarrow> member j k = None \<Longrightarrow> key_of_const j k = Inl Undefined \<and> key_of_mutable j k = Inr Null"
  by (cases j) simp_all

lemma no_object: "\<not> is_object j \<Longrightarrow> key_of_const j k = Inl Json_exception"
  by (cases j) simp_all

lemma element_in_range: "is_array j \<Longrightarrow> n < size_of j \<Longrightarrow> \<exists>v. element_at j n = Inr v"
  by (cases j) simp_all

lemma with_key_total: "j = Null \<or> is_object j \<Longrightarrow> \<exists>j'. with_key j k v = Inr j'"
  by (cases j) simp_all

lemma with_key_Inr:
  assumes "with_key j k v = Inr j'"
  shows "is_object j' \<and> key_of_const j' k = Inr v \<and>
    member j' k' = (if k' = k then Some v else member j k')"
  using assms by (cases j) auto

lemma key_of_const_member: "member j k = Some v \<Longrightarrow> key_of_const j k = Inr v"
  by (cases j) simp_all

lemma ref_json_library: "json_library ref_json"
proof
  fix s e j k n v j' k' i
  show "json_parse ref_json s = Inl e \<Longrightarrow> e = Json_exception"
    "json_string ref_json j = Inl e \<Longrightarrow> e = Json_exception"
    "json_int ref_json j = Inl e \<Longrightarrow> e = Json_exception"
    "json_u64 ref_json j = Inl e \<Longrightarrow> e = Json_exception"
    "json_u16 ref_json j = Inl e \<Longrightarrow> e = Json_exception"
    "json_bool ref_json j = Inl e \<Longrightarrow> e = Json_exception"
    by (auto simp: rbind_eq_Inl conversions_of_fail read_json_fails)
  show "json_is_string ref_json j \<longleftrightarrow> (\<exists>s. json_string ref_json j = Inr s)"
    by (simp add: is_text_iff)
  show "json_contains ref_json j k \<Longrightarrow> json_is_object ref_json j"
    "json_contains ref_json j k \<Longrightarrow> \<exists>v. json_key ref_json j k = Inr v"
    "json_contains ref_json j k \<Longrightarrow> json_key_mut ref_json j k = json_key ref_json j k"
    using member_object by auto
  show "json_is_object ref_json j \<Longrightarrow> \<not> json_contains ref_json j k \<Longrightarrow>
      json_key ref_json j k = Inl Undefined"
    "json_is_object ref_json j \<Longrightarrow> \<not> json_contains ref_json j k \<Longrightarrow>
      json_key_mut ref_json j k = Inr (json_null ref_json)"
    using member_absent by auto
  show "json_set ref_json j k v = Inr j' \<Longrightarrow> json_is_object ref_json j'"
    "json_set ref_json j k v = Inr j' \<Longrightarrow> json_key ref_json j' k = Inr v"
    "json_set ref_json j k v = Inr j' \<Longrightarrow>
      json_contains ref_json j' k' \<longleftrightarrow> k' = k \<or> json_contains ref_json j k'"
    using with_key_Inr [of j k v j' k'] by auto
  show "json_set ref_json j k v = Inr j' \<Longrightarrow> k' \<noteq> k \<Longrightarrow> json_contains ref_json j k' \<Longrightarrow>
      json_key ref_json j' k' = json_key ref_json j k'"
    using with_key_Inr [of j k v j' k'] key_of_const_member by auto
qed (auto simp: no_object element_in_range with_key_total as_int_def)

interpretation ref: json_library ref_json
  by (rule ref_json_library)

end
