(* ===== verification/Stratum.thy ===== *)
theory Stratum
  imports Json_Reference
begin

text \<open>
  The messages of the Stratum protocol: \<open>src/gpu-proxy-cpp/src/stratum.hpp\<close> and \<open>stratum.cpp\<close>.
  Requests, responses and jobs, parsing a request line, printing a response, and building a job from
  the parameters of a notification.
\<close>

section \<open>Data\<close>

datatype stratum_method =
  SUBSCRIBE | AUTHORIZE | SUBMIT | NOTIFY | SET_DIFFICULTY | LOGIN | JOB | MONERO_SUBMIT | UNKNOWN

record 'j stratum_request =
  req_id :: int
  req_method :: stratum_method
  req_params :: 'j

record 'j stratum_response =
  resp_id :: int
  resp_result :: 'j
  resp_error :: 'j

record job =
  job_id :: string
  blob :: string
  target :: string
  difficulty :: string
  height :: "64 word"
  clean_jobs :: bool

section \<open>Parsing a request\<close>

definition method_of_string :: "string \<Rightarrow> stratum_method" where
  "method_of_string s =
     (if s = ''mining.subscribe'' then SUBSCRIBE
      else if s = ''mining.authorize'' then AUTHORIZE
      else if s = ''mining.submit'' then SUBMIT
      else if s = ''mining.notify'' then NOTIFY
      else if s = ''mining.set_difficulty'' then SET_DIFFICULTY
      else if s = ''login'' then LOGIN
      else if s = ''job'' then JOB
      else if s = ''submit'' then MONERO_SUBMIT
      else UNKNOWN)"

text \<open>
  The body of the \<open>try\<close> block works on the local variable \<open>req\<close>, which is its state.  The parsed
  document \<open>j\<close> is a mutable local, so indexing it uses \<open>json_key_mut\<close>.
\<close>

definition parse_id :: "'j json_lib \<Rightarrow> 'j \<Rightarrow> ('j stratum_request, unit) M" where
  "parse_id J j =
     (if json_contains J j ''id''
      then mbind (mlift (json_key_mut J j ''id'')) (\<lambda>v.
           mbind (mlift (json_int J v)) (\<lambda>i. mmodify (\<lambda>r. r\<lparr>req_id := i\<rparr>)))
      else mmodify (\<lambda>r. r\<lparr>req_id := 0\<rparr>))"

definition parse_method :: "'j json_lib \<Rightarrow> 'j \<Rightarrow> ('j stratum_request, unit) M" where
  "parse_method J j =
     (if json_contains J j ''method''
      then mbind (mlift (json_key_mut J j ''method'')) (\<lambda>v.
           mbind (mlift (json_string J v)) (\<lambda>s. mmodify (\<lambda>r. r\<lparr>req_method := method_of_string s\<rparr>)))
      else mmodify (\<lambda>r. r\<lparr>req_method := UNKNOWN\<rparr>))"

definition parse_params :: "'j json_lib \<Rightarrow> 'j \<Rightarrow> ('j stratum_request, unit) M" where
  "parse_params J j =
     mwhen (json_contains J j ''params'')
       (mbind (mlift (json_key_mut J j ''params'')) (\<lambda>v. mmodify (\<lambda>r. r\<lparr>req_params := v\<rparr>)))"

definition parse_body :: "'j json_lib \<Rightarrow> string \<Rightarrow> ('j stratum_request, unit) M" where
  "parse_body J line =
     mbind (mlift (json_parse J line)) (\<lambda>j.
     mthen (parse_id J j) (mthen (parse_method J j) (parse_params J j)))"

text \<open>
  \<open>StratumRequest::parse\<close>.  \<open>req\<close> starts with an indeterminate \<open>id\<close>; its \<open>params\<close> are null, and its
  \<open>method\<close> is assigned on every path, so its initial contents do not matter.  Only exceptions of the
  JSON library are caught.
\<close>

definition stratum_parse :: "'j json_lib \<Rightarrow> garbage \<Rightarrow> string \<Rightarrow> 'j stratum_request result" where
  "stratum_parse J g line =
     (case parse_body J line \<lparr>req_id = any_int g, req_method = UNKNOWN, req_params = json_null J\<rparr> of
        (Inr _, req) \<Rightarrow> Inr req
      | (Inl Json_exception, req) \<Rightarrow> Inr (req\<lparr>req_method := UNKNOWN\<rparr>)
      | (Inl e, req) \<Rightarrow> Inl e)"

section \<open>Printing a response\<close>

definition response_doc :: "'j json_lib \<Rightarrow> 'j stratum_response \<Rightarrow> 'j result" where
  "response_doc J r =
     rbind (json_set J (json_null J) ''id'' (json_of_int J (resp_id r))) (\<lambda>j.
     rbind (json_set J j ''result'' (resp_result r)) (\<lambda>j.
     json_set J j ''error'' (resp_error r)))"

definition response_to_json :: "'j json_lib \<Rightarrow> 'j stratum_response \<Rightarrow> string result" where
  "response_to_json J r = rbind (response_doc J r) (json_dump J)"

section \<open>A job from the parameters of a notification\<close>

text \<open>\<open>std::string s = params[i]\<close>: index, then convert.\<close>

definition string_at :: "'j json_lib \<Rightarrow> 'j \<Rightarrow> nat \<Rightarrow> string result" where
  "string_at J j i = rbind (json_index J j i) (json_string J)"

definition empty_job :: job where
  "empty_job = \<lparr>job_id = [], blob = [], target = [], difficulty = [], height = 0, clean_jobs = False\<rparr>"

definition from_notify :: "'j json_lib \<Rightarrow> 'j \<Rightarrow> job result" where
  "from_notify J params =
     (if json_is_array J params \<and> json_size J params \<ge> 4
      then rbind (string_at J params 0) (\<lambda>jid.
           rbind (string_at J params 1) (\<lambda>b.
           rbind (string_at J params 2) (\<lambda>t.
           rbind (string_at J params 3) (\<lambda>d.
           rbind (if json_size J params \<ge> 5
                  then rbind (json_index J params 4) (json_u64 J) else Inr 0) (\<lambda>h.
           rbind (if json_size J params \<ge> 6
                  then rbind (json_index J params 5) (json_bool J) else Inr False) (\<lambda>c.
           Inr \<lparr>job_id = jid, blob = b, target = t, difficulty = d, height = h, clean_jobs = c\<rparr>))))))
      else Inr empty_job)"

section \<open>Properties of the messages\<close>

text \<open>The name of each method on the wire; only these strings are recognised.\<close>

fun method_name :: "stratum_method \<Rightarrow> string option" where
  "method_name SUBSCRIBE = Some ''mining.subscribe''"
| "method_name AUTHORIZE = Some ''mining.authorize''"
| "method_name SUBMIT = Some ''mining.submit''"
| "method_name NOTIFY = Some ''mining.notify''"
| "method_name SET_DIFFICULTY = Some ''mining.set_difficulty''"
| "method_name LOGIN = Some ''login''"
| "method_name JOB = Some ''job''"
| "method_name MONERO_SUBMIT = Some ''submit''"
| "method_name UNKNOWN = None"

lemma method_of_name: "method_name m = Some s \<Longrightarrow> method_of_string s = m"
  by (cases m) (auto simp: method_of_string_def)

lemma method_of_stringD: "method_of_string s \<noteq> UNKNOWN \<Longrightarrow> method_name (method_of_string s) = Some s"
  unfolding method_of_string_def by (auto split: if_split_asm)

context json_library begin

lemma only_fails_key_mut:
  "json_contains J j k \<Longrightarrow> only_fails {} (mlift (json_key_mut J j k))"
  using key_mut_of_contains by (intro only_fails_mlift) fastforce

lemma only_fails_conversion:
  shows "only_fails {Json_exception} (mlift (json_int J j))"
    and "only_fails {Json_exception} (mlift (json_string J j))"
    and "only_fails {Json_exception} (mlift (json_parse J s))"
  by (auto intro!: only_fails_mlift dest: conversions_fail)

lemma parse_body_fails: "only_fails {Json_exception} (parse_body J line)"
  unfolding parse_body_def parse_id_def parse_method_def parse_params_def
  by (auto intro!: safe only_fails_conversion intro: only_fails_mono [OF only_fails_key_mut])

lemma stratum_parse_total: "\<exists>r. stratum_parse J g line = Inr r"
  using parse_body_fails [of line]
  by (auto simp: stratum_parse_def only_fails_iff split: prod.splits sum.splits failure.splits)

lemma parse_body_forgets_id:
  "parse_body J line r = (Inr (), r') \<Longrightarrow> parse_body J line (r\<lparr>req_id := i\<rparr>) = (Inr (), r')"
  unfolding parse_body_def parse_id_def parse_method_def parse_params_def
  by (auto simp: mbind_def mthen_def mwhen_def split: sum.splits if_splits)

lemma stratum_parse_known:
  "stratum_parse J g line = Inr r \<Longrightarrow> req_method r \<noteq> UNKNOWN \<Longrightarrow>
   parse_body J line \<lparr>req_id = any_int g, req_method = UNKNOWN, req_params = json_null J\<rparr>
     = (Inr (), r)"
  by (auto simp: stratum_parse_def split: prod.splits sum.splits failure.splits)

lemma stratum_parse_forgets_garbage:
  assumes "stratum_parse J g line = Inr r" and "req_method r \<noteq> UNKNOWN"
  shows "stratum_parse J g' line = Inr r"
  using parse_body_forgets_id [OF stratum_parse_known [OF assms], of "any_int g'"]
  by (simp add: stratum_parse_def)

lemma stratum_parse_null_id:
  assumes "json_parse J line = Inr j" and "json_contains J j ''id''"
    and "json_key J j ''id'' = Inr v" and "json_is_null J v"
  shows "stratum_parse J g line
     = Inr \<lparr>req_id = any_int g, req_method = UNKNOWN, req_params = json_null J\<rparr>"
  using assms null_no_int
  by (simp add: stratum_parse_def parse_body_def parse_id_def key_mut_present mbind_def mthen_def)

lemma response_doc_reads_back:
  assumes "response_doc J r = Inr j"
  shows "json_key J j ''id'' = Inr (json_of_int J (resp_id r)) \<and>
    json_key J j ''result'' = Inr (resp_result r) \<and> json_key J j ''error'' = Inr (resp_error r)"
proof -
  from assms obtain j1 j2 where
    1: "json_set J (json_null J) ''id'' (json_of_int J (resp_id r)) = Inr j1" and
    2: "json_set J j1 ''result'' (resp_result r) = Inr j2" and
    3: "json_set J j2 ''error'' (resp_error r) = Inr j"
    by (auto simp: response_doc_def rbind_eq_Inr)
  have "json_contains J j1 ''id''" "json_contains J j2 ''id''" "json_contains J j2 ''result''"
    using set_contains [OF 1] set_contains [OF 2] by simp_all
  then show ?thesis
    using set_key [OF 1] set_key [OF 2] set_key [OF 3]
      set_other [OF 2, of "''id''"] set_other [OF 3, of "''id''"] set_other [OF 3, of "''result''"]
    by simp
qed

lemma response_doc_total: "\<exists>j. response_doc J r = Inr j"
proof -
  obtain j1 where 1: "json_set J (json_null J) ''id'' (json_of_int J (resp_id r)) = Inr j1"
    using set_ok null_is_null by blast
  obtain j2 where 2: "json_set J j1 ''result'' (resp_result r) = Inr j2"
    using set_ok set_object [OF 1] by blast
  obtain j3 where "json_set J j2 ''error'' (resp_error r) = Inr j3"
    using set_ok set_object [OF 2] by blast
  with 1 2 show ?thesis by (simp add: response_doc_def)
qed

lemma string_at_fails: "json_is_array J j \<Longrightarrow> i < json_size J j \<Longrightarrow>
  string_at J j i = Inl e \<Longrightarrow> e = Json_exception"
  using index_in_range by (fastforce simp: string_at_def rbind_eq_Inl dest: conversions_fail)

lemma from_notify_fails:
  assumes "from_notify J p = Inl e"
  shows "e = Json_exception"
proof -
  have idx: "json_index J p i \<noteq> Inl e" if "json_is_array J p" "i < json_size J p" for i
    using index_in_range [OF that] by auto
  from assms show ?thesis
    unfolding from_notify_def
    by (auto simp: rbind_eq_Inl idx split: if_splits dest!: string_at_fails
        dest: u64_fails bool_fails)
qed

end

section \<open>What a request line means\<close>

text \<open>Property C33: \<open>StratumRequest::parse\<close> returns for every line, whatever the JSON library makes
  of it; and unless the method comes out as \<open>UNKNOWN\<close>, the request does not depend on the contents
  of the uninitialised \<open>id\<close>.\<close>

theorem parse_total:
  assumes "json_library J"
  shows "\<exists>r. stratum_parse J g line = Inr r \<and>
    (req_method r \<noteq> UNKNOWN \<longrightarrow> (\<forall>g'. stratum_parse J g' line = Inr r))"
  using json_library.stratum_parse_total [OF assms, of g line]
    json_library.stratum_parse_forgets_garbage [OF assms]
  by blast

definition submit_line :: string where
  "submit_line = ''{\"id\": 7, \"method\": \"mining.submit\", \"params\": [\"rig\", \"j1\", \"00ff\", \"beef\"]}''"

definition submit_params :: json where
  "submit_params = Array [Text ''rig'', Text ''j1'', Text ''00ff'', Text ''beef'']"

definition submit_doc :: json where
  "submit_doc = Object [(''id'', Number 7), (''method'', Text ''mining.submit''), (''params'', submit_params)]"

lemma submit_line_doc: "read_json submit_line = Inr submit_doc"
  by code_simp

lemma submit_doc_fields:
  "json_contains ref_json submit_doc ''id''" "json_key ref_json submit_doc ''id'' = Inr (Number 7)"
  "json_int ref_json (Number 7) = Inr 7" "json_contains ref_json submit_doc ''method''"
  "json_key ref_json submit_doc ''method'' = Inr (Text ''mining.submit'')"
  "json_string ref_json (Text ''mining.submit'') = Inr ''mining.submit''"
  "json_contains ref_json submit_doc ''params''"
  "json_key ref_json submit_doc ''params'' = Inr submit_params"
  by (simp_all add: submit_doc_def as_int_def)

theorem parse_total_witness:
  "\<exists>r. stratum_parse ref_json \<lparr>any_int = 9, any_bool = True, any_u16 = 1, any_u64 = 2\<rparr> submit_line = Inr r \<and>
    (req_method r \<noteq> UNKNOWN \<longrightarrow> (\<forall>g'. stratum_parse ref_json g' submit_line = Inr r))"
  by (rule parse_total [OF ref_json_library])

text \<open>A line that is a JSON object with an integer id, a string method and parameters is
  read as exactly that request, and the method is recognised if and only if it is one of the eight
  names of the protocol.\<close>

theorem parse_reads_request:
  assumes "json_library J" and "json_parse J line = Inr j"
    and "json_contains J j ''id''" and "json_key J j ''id'' = Inr v" and "json_int J v = Inr i"
    and "json_contains J j ''method''" and "json_key J j ''method'' = Inr m" and "json_string J m = Inr s"
    and "json_contains J j ''params''" and "json_key J j ''params'' = Inr p"
  shows "stratum_parse J g line = Inr \<lparr>req_id = i, req_method = method_of_string s, req_params = p\<rparr> \<and>
    (\<forall>q. q \<noteq> UNKNOWN \<longrightarrow> (method_of_string s = q \<longleftrightarrow> method_name q = Some s))"
proof -
  have k: "json_key_mut J j ''id'' = Inr v" "json_key_mut J j ''method'' = Inr m"
    "json_key_mut J j ''params'' = Inr p"
    using assms json_library.key_mut_present [OF assms(1)] by simp_all
  have "stratum_parse J g line = Inr \<lparr>req_id = i, req_method = method_of_string s, req_params = p\<rparr>"
    using assms(2-) k
    by (simp add: stratum_parse_def parse_body_def parse_id_def parse_method_def parse_params_def
        mbind_def mthen_def)
  then show ?thesis using method_of_name method_of_stringD by blast
qed

theorem parse_reads_request_witness:
  "stratum_parse ref_json \<lparr>any_int = 9, any_bool = True, any_u16 = 1, any_u64 = 2\<rparr> submit_line =
     Inr \<lparr>req_id = 7, req_method = SUBMIT, req_params = submit_params\<rparr>"
  using parse_reads_request [OF ref_json_library _ submit_doc_fields, of submit_line
      "\<lparr>any_int = 9, any_bool = True, any_u16 = 1, any_u64 = 2\<rparr>"]
  by (simp add: submit_line_doc method_of_string_def)

text \<open>A request or notification whose id is null, as JSON-RPC notifications may have it,
  is never recognised: the conversion of the id throws before the method is read, so the method is
  \<open>UNKNOWN\<close> whatever the line says.\<close>

theorem parse_null_id:
  assumes "json_library J" and "json_parse J line = Inr j" and "json_contains J j ''id''"
    and "json_key J j ''id'' = Inr v" and "json_is_null J v"
  shows "stratum_parse J g line = Inr \<lparr>req_id = any_int g, req_method = UNKNOWN, req_params = json_null J\<rparr>"
  by (rule json_library.stratum_parse_null_id [OF assms])

definition null_id_line :: string where
  "null_id_line = ''{\"id\":null,\"method\":\"job\",\"params\":{}}''"

theorem parse_null_id_witness:
  "req_method (case stratum_parse ref_json \<lparr>any_int = 9, any_bool = True, any_u16 = 1, any_u64 = 2\<rparr> null_id_line of Inr r \<Rightarrow> r) = UNKNOWN"
proof -
  have "read_json null_id_line =
      Inr (Object [(''id'', Null), (''method'', Text ''job''), (''params'', Object [])])"
    by code_simp
  then show ?thesis
    using parse_null_id [OF ref_json_library, of null_id_line _ Null "\<lparr>any_int = 9, any_bool = True, any_u16 = 1, any_u64 = 2\<rparr>"] by simp
qed

section \<open>Responses and jobs\<close>



text \<open>\<open>Job::from_notify\<close> takes the first four parameters as strings, the fifth, if there is
  one, as the height and the sixth as the flag; fewer than four parameters or no array give the
  default job; and it fails only with an exception of the JSON library.\<close>

theorem from_notify_spec:
  assumes "json_library J"
  shows "(if json_is_array J p \<and> 4 \<le> json_size J p
     then \<forall>j. from_notify J p = Inr j \<longleftrightarrow>
       string_at J p 0 = Inr (job_id j) \<and> string_at J p 1 = Inr (blob j) \<and>
       string_at J p 2 = Inr (target j) \<and> string_at J p 3 = Inr (difficulty j) \<and>
       (if 5 \<le> json_size J p then rbind (json_index J p 4) (json_u64 J) = Inr (height j)
        else height j = 0) \<and>
       (if 6 \<le> json_size J p then rbind (json_index J p 5) (json_bool J) = Inr (clean_jobs j)
        else \<not> clean_jobs j)
     else from_notify J p = Inr empty_job) \<and>
    (\<forall>e. from_notify J p = Inl e \<longrightarrow> e = Json_exception)"
proof (intro conjI allI impI)
  fix e assume "from_notify J p = Inl e"
  then show "e = Json_exception" by (rule json_library.from_notify_fails [OF assms])
next
  have h: "(if c then x else Inr (0 :: 64 word)) = Inr a \<longleftrightarrow> (if c then x = Inr a else a = 0)" for c x a
    by auto
  have b: "(if c then x else Inr False) = Inr a \<longleftrightarrow> (if c then x = Inr a else \<not> a)" for c x a
    by auto
  have r: "\<lparr>job_id = j0, blob = j1, target = j2, difficulty = j3, height = j4, clean_jobs = j5\<rparr> = j \<longleftrightarrow> j0 = job_id j \<and> j1 = blob j \<and> j2 = target j \<and> j3 = difficulty j \<and>
      j4 = height j \<and> j5 = clean_jobs j" for j j0 j1 j2 j3 j4 j5
    by (cases j) auto
  show "if json_is_array J p \<and> 4 \<le> json_size J p
     then \<forall>j. from_notify J p = Inr j \<longleftrightarrow>
       string_at J p 0 = Inr (job_id j) \<and> string_at J p 1 = Inr (blob j) \<and>
       string_at J p 2 = Inr (target j) \<and> string_at J p 3 = Inr (difficulty j) \<and>
       (if 5 \<le> json_size J p then rbind (json_index J p 4) (json_u64 J) = Inr (height j)
        else height j = 0) \<and>
       (if 6 \<le> json_size J p then rbind (json_index J p 5) (json_bool J) = Inr (clean_jobs j)
        else \<not> clean_jobs j)
     else from_notify J p = Inr empty_job"
    unfolding from_notify_def by (auto simp: rbind_eq_Inr h b r)
qed

theorem from_notify_spec_witness:
  "from_notify ref_json (Array [Text ''j9'', Text ''b'', Text ''t'', Text ''d'', Number 77]) =
     Inr \<lparr>job_id = ''j9'', blob = ''b'', target = ''t'', difficulty = ''d'', height = 77, clean_jobs = False\<rparr>"
  using from_notify_spec [OF ref_json_library,
      of "Array [Text ''j9'', Text ''b'', Text ''t'', Text ''d'', Number 77]"]
  by (simp add: string_at_def)

end
