(* ===== verification/Config.thy ===== *)
theory Config
  imports Stratum
begin

text \<open>
  The configuration file: \<open>src/gpu-proxy-cpp/src/config.hpp\<close> and \<open>config.cpp\<close>.  The pool address
  \<open>host:port\<close> with the formatted extraction of a \<open>uint16_t\<close> from a string stream, and the loading of
  the settings, pools and workers from a JSON document.
\<close>

section \<open>Data\<close>

record pool_config =
  pool_name :: string
  pool_host :: string
  pool_port :: "16 word"
  pool_wallet :: string
  pool_password :: string
  pool_tls :: bool
  pool_priority :: int

record worker_config =
  worker_cfg_id :: string
  worker_cfg_password :: string

record proxy_config =
  listen_port :: "16 word"
  api_port :: "16 word"
  log_level :: string
  pools :: "pool_config list"
  worker_cfgs :: "worker_config list"

section \<open>Extraction of an unsigned short from a stream\<close>

definition is_space :: "char \<Rightarrow> bool" where
  "is_space c \<longleftrightarrow> c = CHR '' '' \<or> (9 \<le> (of_char c :: nat) \<and> (of_char c :: nat) \<le> 13)"

definition is_digit :: "char \<Rightarrow> bool" where
  "is_digit c \<longleftrightarrow> 48 \<le> (of_char c :: nat) \<and> (of_char c :: nat) \<le> 57"

text \<open>
  \<open>iss >> port\<close> in the C locale.  White space is skipped; at the end of the string nothing is
  extracted and the variable keeps its contents.  Otherwise an optional sign and the longest run of
  digits are read: no digits store 0, a number above the type's maximum stores the maximum, and a
  minus sign negates modulo \<open>2 ^ 16\<close>.
\<close>

definition store_u16 :: "bool \<Rightarrow> string \<Rightarrow> 16 word" where
  "store_u16 negative s =
     (let ds = takeWhile is_digit s; n = read_base 10 ds in
      if ds = [] then 0
      else if n > 65535 then 65535
      else if negative then - of_nat n
      else of_nat n)"

definition extract_u16 :: "16 word \<Rightarrow> string \<Rightarrow> 16 word" where
  "extract_u16 old s =
     (case dropWhile is_space s of
        [] \<Rightarrow> old
      | c # cs \<Rightarrow> if c = CHR ''-'' then store_u16 True cs
                  else if c = CHR ''+'' then store_u16 False cs
                  else store_u16 False (c # cs))"

section \<open>Loading\<close>

text \<open>\<open>port\<close> is a reference to the caller's variable, whose contents are indeterminate.\<close>

definition parse_host_port :: "16 word \<Rightarrow> string \<Rightarrow> string \<times> 16 word" where
  "parse_host_port port url =
     (case find_char (CHR '':'') url of
        Some colon_pos \<Rightarrow> (take colon_pos url, extract_u16 port (drop (colon_pos + 1) url))
      | None \<Rightarrow> (url, 3333))"

text \<open>\<open>if (o.contains(k)) o[k].get_to(x)\<close> and \<open>o[k].get_to(x)\<close> on a constant reference.\<close>

definition get_if :: "'j json_lib \<Rightarrow> ('j \<Rightarrow> 'a result) \<Rightarrow> 'j \<Rightarrow> string \<Rightarrow> 'a \<Rightarrow> 'a result" where
  "get_if J conv j k x = (if json_contains J j k then rbind (json_key J j k) conv else Inr x)"

definition get_field :: "'j json_lib \<Rightarrow> ('j \<Rightarrow> 'a result) \<Rightarrow> 'j \<Rightarrow> string \<Rightarrow> 'a result" where
  "get_field J conv j k = rbind (json_key J j k) conv"

definition load_pool :: "'j json_lib \<Rightarrow> garbage \<Rightarrow> 'j \<Rightarrow> pool_config result" where
  "load_pool J g p =
     rbind (get_field J (json_string J) p ''name'') (\<lambda>name.
     rbind (get_field J (json_string J) p ''url'') (\<lambda>url.
     (let (host, port) = parse_host_port (any_u16 g) url in
     rbind (get_field J (json_string J) p ''wallet'') (\<lambda>wallet.
     rbind (get_field J (json_string J) p ''password'') (\<lambda>password.
     rbind (get_field J (json_bool J) p ''tls'') (\<lambda>tls.
     rbind (get_field J (json_int J) p ''priority'') (\<lambda>priority.
     Inr \<lparr>pool_name = name, pool_host = host, pool_port = port, pool_wallet = wallet,
          pool_password = password, pool_tls = tls, pool_priority = priority\<rparr>)))))))"

definition load_worker :: "'j json_lib \<Rightarrow> 'j \<Rightarrow> worker_config result" where
  "load_worker J w =
     rbind (get_field J (json_string J) w ''id'') (\<lambda>i.
     rbind (get_field J (json_string J) w ''password'') (\<lambda>password.
     Inr \<lparr>worker_cfg_id = i, worker_cfg_password = password\<rparr>))"

definition load_list :: "'j json_lib \<Rightarrow> ('j \<Rightarrow> 'a result) \<Rightarrow> 'j \<Rightarrow> string \<Rightarrow> 'a list result" where
  "load_list J f j k =
     (if json_contains J j k
      then rbind (json_key_mut J j k) (\<lambda>v. rmap f (json_elements J v)) else Inr [])"

definition load_settings :: "'j json_lib \<Rightarrow> 'j \<Rightarrow> proxy_config \<Rightarrow> proxy_config result" where
  "load_settings J j c =
     (if json_contains J j ''settings''
      then rbind (json_key_mut J j ''settings'') (\<lambda>s.
           rbind (get_if J (json_u16 J) s ''listen_port'' (listen_port c)) (\<lambda>lp.
           rbind (get_if J (json_u16 J) s ''api_port'' (api_port c)) (\<lambda>ap.
           rbind (get_if J (json_string J) s ''log_level'' (log_level c)) (\<lambda>ll.
           Inr (c\<lparr>listen_port := lp, api_port := ap, log_level := ll\<rparr>)))))
      else Inr c)"

text \<open>
  \<open>ConfigLoader::load_from_file\<close>.  \<open>contents\<close> is what the file holds, \<open>None\<close> when it cannot be
  opened.  The ports of the fresh \<open>ProxyConfig\<close> are indeterminate, its other members are empty.
\<close>

definition load_from_file ::
    "'j json_lib \<Rightarrow> garbage \<Rightarrow> string \<Rightarrow> string option \<Rightarrow> proxy_config result" where
  "load_from_file J g path contents =
     (case contents of
        None \<Rightarrow> Inl (Runtime_error (''Cannot open config file: '' @ path))
      | Some text \<Rightarrow>
          rbind (json_parse J text) (\<lambda>j.
          rbind (load_settings J j \<lparr>listen_port = any_u16 g, api_port = any_u16 g, log_level = [],
                                    pools = [], worker_cfgs = []\<rparr>) (\<lambda>c.
          rbind (load_list J (load_pool J g) j ''pools'') (\<lambda>ps.
          rbind (load_list J (load_worker J) j ''workers'') (\<lambda>ws.
          Inr (c\<lparr>pools := ps, worker_cfgs := ws\<rparr>))))))"

definition load_default :: proxy_config where
  "load_default = \<lparr>listen_port = 3334, api_port = 8083, log_level = ''INFO'', pools = [],
     worker_cfgs = []\<rparr>"

section \<open>The address of a pool\<close>

lemma is_digit_char [simp]: "d < 10 \<Longrightarrow> is_digit (digit_char d)"
  by (simp add: is_digit_def digit_char_def)

lemma digits_show_base: "list_all is_digit (show_base 10 n)"
proof (induction n rule: less_induct)
  case (less n)
  show ?case
  proof (cases "n < 10")
    case True
    then show ?thesis by (subst show_base.simps) simp
  next
    case False
    then show ?thesis using less [of "n div 10"] by (subst show_base.simps) simp
  qed
qed

lemma show_base_nonempty [simp]: "show_base b n \<noteq> []"
  by (subst show_base.simps) simp

lemma digit_not_special: "is_digit c \<Longrightarrow> \<not> is_space c \<and> c \<noteq> CHR ''-'' \<and> c \<noteq> CHR ''+'' \<and> c \<noteq> CHR '':''"
  by (auto simp: is_digit_def is_space_def)

lemma takeWhile_digits: "list_all is_digit s \<Longrightarrow> takeWhile is_digit s = s"
  by (induction s) auto

lemma extract_u16_show_nat:
  "extract_u16 old (show_nat n) = (if n \<le> 65535 then of_nat n else 65535)"
proof -
  let ?s = "show_base 10 n"
  obtain c cs where s: "?s = c # cs" using show_base_nonempty [of 10 n] by (cases ?s) auto
  have d: "list_all is_digit ?s" by (rule digits_show_base)
  with s have c: "is_digit c" by simp
  have "store_u16 False ?s = (if n \<le> 65535 then of_nat n else 65535)"
    unfolding store_u16_def Let_def takeWhile_digits [OF d] by (simp add: read_show_base)
  with s digit_not_special [OF c] show ?thesis
    by (simp add: extract_u16_def show_nat_def)
qed

lemma parse_host_port_colon:
  "CHR '':'' \<notin> set host \<Longrightarrow> parse_host_port g (host @ CHR '':'' # s) = (host, extract_u16 g s)"
  by (simp add: parse_host_port_def find_char_append)

lemma parse_host_port_host: "CHR '':'' \<notin> set (fst (parse_host_port g url))"
  by (auto simp: parse_host_port_def find_char_Some split: option.splits)

section \<open>What a configuration file means\<close>

text \<open>Property C35: a pool address \<open>host:port\<close> is split at the first colon and the port read back
  exactly, whatever the uninitialised variable held; a number above 65535 becomes 65535; an address
  without a colon gets port 3333; an address that ends in its colon leaves the variable alone.\<close>

theorem host_port_round_trip:
  assumes "CHR '':'' \<notin> set host"
  shows "parse_host_port g (host @ CHR '':'' # show_nat n) = (host, if n \<le> 65535 then of_nat n else 65535) \<and>
    parse_host_port g host = (host, 3333) \<and> parse_host_port g (host @ [CHR '':'']) = (host, g)"
  using assms parse_host_port_colon [OF assms, of g "show_nat n"] parse_host_port_colon [OF assms, of g "[]"]
  by (simp add: extract_u16_show_nat) (simp add: parse_host_port_def extract_u16_def)

theorem host_port_round_trip_witness:
  "parse_host_port 17 (''xtm.example.org'' @ CHR '':'' # show_nat 7777) = (''xtm.example.org'', 7777)"
  using host_port_round_trip [of "''xtm.example.org''" 17 7777] by simp

lemma load_list_Inr:
  assumes "load_list J f j k = Inr xs"
  shows "\<not> json_contains J j k \<and> xs = [] \<or>
    (\<exists>v. json_contains J j k \<and> json_key_mut J j k = Inr v \<and>
         list_all2 (\<lambda>e x. f e = Inr x) (json_elements J v) xs)"
  using assms by (auto simp: load_list_def rbind_eq_Inr rmap_eq_Inr split: if_splits)

lemma load_settings_lists:
  "load_settings J j c = Inr c' \<Longrightarrow> pools c' = pools c \<and> worker_cfgs c' = worker_cfgs c"
  by (auto simp: load_settings_def rbind_eq_Inr split: if_splits)

text \<open>Property C36: a configuration that loads has one pool for each element of the document's array of
  pools, in the same order, and one worker for each element of the array of workers: the order of
  failover is that of the file, and no entry is skipped.\<close>

theorem load_keeps_order:
  assumes "load_from_file J g path (Some t) = Inr c"
  shows "\<exists>j. json_parse J t = Inr j \<and>
    (pools c = [] \<and> \<not> json_contains J j ''pools'' \<or>
     (\<exists>v. json_key_mut J j ''pools'' = Inr v \<and>
          list_all2 (\<lambda>e p. load_pool J g e = Inr p) (json_elements J v) (pools c))) \<and>
    (worker_cfgs c = [] \<and> \<not> json_contains J j ''workers'' \<or>
     (\<exists>v. json_key_mut J j ''workers'' = Inr v \<and>
          list_all2 (\<lambda>e x. load_worker J e = Inr x) (json_elements J v) (worker_cfgs c)))"
proof -
  from assms obtain j c0 ps ws where j: "json_parse J t = Inr j"
    and ps: "load_list J (load_pool J g) j ''pools'' = Inr ps"
    and ws: "load_list J (load_worker J) j ''workers'' = Inr ws"
    and c: "c = c0\<lparr>pools := ps, worker_cfgs := ws\<rparr>"
    by (auto simp: load_from_file_def rbind_eq_Inr)
  from j c load_list_Inr [OF ps] load_list_Inr [OF ws] show ?thesis by auto
qed

definition pool_text :: "string \<Rightarrow> string" where
  "pool_text name = ''{\"name\":\"'' @ name @ ''\",\"url\":\"h:1\",\"wallet\":\"w\",\"password\":\"x\",\"tls\":true,\"priority\":1}''"

definition two_pools :: string where
  "two_pools = ''{\"pools\":['' @ pool_text ''a'' @ '','' @ pool_text ''b'' @ '']}''"

definition no_garbage :: garbage where
  "no_garbage = \<lparr>any_int = 0, any_bool = False, any_u16 = 55, any_u64 = 0\<rparr>"

definition loaded :: "pool_config \<Rightarrow> pool_config \<Rightarrow> proxy_config" where
  "loaded p q = \<lparr>listen_port = 55, api_port = 55, log_level = [], pools = [p, q], worker_cfgs = []\<rparr>"

definition pool_named :: "string \<Rightarrow> pool_config" where
  "pool_named name = \<lparr>pool_name = name, pool_host = ''h'', pool_port = 1, pool_wallet = ''w'',
     pool_password = ''x'', pool_tls = True, pool_priority = 1\<rparr>"

definition pool_doc :: "string \<Rightarrow> json" where
  "pool_doc name = Object [(''name'', Text name), (''url'', Text ''h:1''), (''wallet'', Text ''w''),
     (''password'', Text ''x''), (''tls'', Bool True), (''priority'', Number 1)]"

lemma two_pools_doc: "read_json two_pools = Inr (Object [(''pools'', Array [pool_doc ''a'', pool_doc ''b''])])"
  by code_simp

lemma extract_one: "extract_u16 g ''1'' = 1"
proof -
  have "show_nat 1 = ''1''" by code_simp
  with extract_u16_show_nat [of g 1] show ?thesis by simp
qed

lemma pool_doc_load: "load_pool ref_json g (pool_doc name) = Inr (pool_named name)"
  by (simp add: load_pool_def get_field_def pool_doc_def pool_named_def parse_host_port_def
      extract_one as_int_def numeral_2_eq_2)

lemma two_pools_load:
  "load_from_file ref_json no_garbage ''f'' (Some two_pools) = Inr (loaded (pool_named ''a'') (pool_named ''b''))"
  by (simp add: load_from_file_def two_pools_doc load_settings_def load_list_def pool_doc_load
      loaded_def no_garbage_def)

theorem load_keeps_order_witness:
  "\<exists>j v. read_json two_pools = Inr j \<and> key_of_mutable j ''pools'' = Inr v \<and>
    list_all2 (\<lambda>e p. load_pool ref_json no_garbage e = Inr p) (elements v) [pool_named ''a'', pool_named ''b'']"
  using load_keeps_order [OF two_pools_load] by (auto simp: loaded_def two_pools_doc)

text \<open>The loader guards none of the members of a pool: a pool that loads has all six, and
  a pool object without a name is undefined behaviour, not an exception, so the handler of \<open>main\<close>
  cannot report it.\<close>

theorem pool_needs_all_members:
  assumes "json_library J"
  shows "(\<forall>c. load_pool J g p = Inr c \<longrightarrow>
      (\<forall>k \<in> {''name'', ''url'', ''wallet'', ''password'', ''tls'', ''priority''}. json_contains J p k)) \<and>
    (json_is_object J p \<and> \<not> json_contains J p ''name'' \<longrightarrow> load_pool J g p = Inl Undefined)"
proof -
  have key: "json_key J p k = Inr v \<Longrightarrow> json_contains J p k" for k v
    using json_library.key_absent [OF assms] json_library.key_no_object [OF assms]
    by (metis Inl_Inr_False)
  have "\<forall>k \<in> {''name'', ''url'', ''wallet'', ''password'', ''tls'', ''priority''}. json_contains J p k"
    if "load_pool J g p = Inr c" for c
    using that key
    by (auto simp: load_pool_def get_field_def rbind_eq_Inr case_prod_beta)
  moreover have "load_pool J g p = Inl Undefined" if "json_is_object J p \<and> \<not> json_contains J p ''name''"
    using that json_library.key_absent [OF assms] by (simp add: load_pool_def get_field_def)
  ultimately show ?thesis by blast
qed

theorem pool_needs_all_members_witness:
  "load_pool ref_json no_garbage (Object [(''url'', Text ''h:1'')]) = Inl Undefined"
  using pool_needs_all_members [OF ref_json_library, of no_garbage "Object [(''url'', Text ''h:1'')]"]
  by simp

text \<open>When the settings do not name a listening port, the proxy listens on whatever the
  uninitialised member of the configuration held.\<close>

theorem listen_port_uninitialised:
  assumes "load_from_file J g path (Some t) = Inr c" and "json_parse J t = Inr j"
    and "\<not> json_contains J j ''settings'' \<or>
      (\<exists>s. json_key_mut J j ''settings'' = Inr s \<and> \<not> json_contains J s ''listen_port'')"
  shows "listen_port c = any_u16 g"
  using assms
  by (auto simp: load_from_file_def load_settings_def get_if_def rbind_eq_Inr split: if_splits)

theorem listen_port_uninitialised_witness: "listen_port (loaded (pool_named ''a'') (pool_named ''b'')) = 55"
  using listen_port_uninitialised [OF two_pools_load, of "Object [(''pools'', Array [pool_doc ''a'', pool_doc ''b''])]"]
  by (simp add: two_pools_doc no_garbage_def)

end
