(* ===== verification/Network.thy ===== *)
theory Network
  imports Config
begin

text \<open>
  What the C++ program stands on: the operating system and OpenSSL, whose answers are the parameter
  \<open>env\<close>; the objects of class \<open>Connection\<close>, held in a heap because callbacks, the event loop and the
  worker table share them by pointer; and the effects the outside sees.

  The answers of \<open>env\<close> depend on the number of questions asked so far, so they are unrelated from
  call to call.  Diagnostics on the standard error stream are not modelled.
\<close>

section \<open>The environment\<close>

datatype errno = Eagain | Ewouldblock | Einprogress | Eintr | Eother int

datatype ssl_error = Ssl_want_read | Ssl_want_write | Ssl_zero_return | Ssl_other int

datatype read_result = Read_bytes string | Read_eof | Read_error errno

text \<open>
  \<^item> \<open>sys_socket\<close>, \<open>sys_accept\<close> get the open descriptors and return a descriptor or a negative
    number; \<open>accept\<close> also yields the error, the peer's address as text and its port;
  \<^item> \<open>sys_set_nonblocking\<close>, \<open>sys_getaddrinfo\<close>, \<open>sys_bind\<close>, \<open>sys_listen\<close> return the C result;
    \<open>sys_connect\<close> and \<open>sys_so_error\<close> return it with the error;
  \<^item> \<open>sys_write\<close> and \<open>ssl_write\<close> return the number of bytes taken, \<open>ssl_write\<close> and \<open>ssl_connect\<close>
    with what \<open>SSL_get_error\<close> says afterwards;
  \<^item> \<open>sys_read\<close> and \<open>ssl_read\<close> deliver bytes; an empty delivery of \<open>ssl_read\<close> is a result that is
    not positive, with the error; \<open>ssl_pending\<close> counts the bytes OpenSSL holds already decrypted;
  \<^item> \<open>sys_poll\<close> returns the C result, the error and the returned events, in the order asked;
  \<^item> \<open>sys_clock\<close> is the monotonic clock in seconds and nanoseconds;
  \<^item> \<open>hash_order\<close> is the iteration order of an \<open>unordered_map\<close> with the given keys;
  \<^item> \<open>memory\<close> is the contents of uninitialised variables.
\<close>

record env =
  sys_socket :: "nat \<Rightarrow> int list \<Rightarrow> int"
  sys_accept :: "nat \<Rightarrow> int list \<Rightarrow> int \<Rightarrow> int \<times> errno \<times> string \<times> 16 word"
  sys_set_nonblocking :: "nat \<Rightarrow> int \<Rightarrow> int"
  sys_getaddrinfo :: "nat \<Rightarrow> string \<Rightarrow> int"
  sys_connect :: "nat \<Rightarrow> int \<Rightarrow> 16 word \<Rightarrow> int \<times> errno"
  sys_bind :: "nat \<Rightarrow> int \<Rightarrow> 16 word \<Rightarrow> int"
  sys_listen :: "nat \<Rightarrow> int \<Rightarrow> int \<Rightarrow> int"
  sys_write :: "nat \<Rightarrow> int \<Rightarrow> string \<Rightarrow> int"
  sys_read :: "nat \<Rightarrow> int \<Rightarrow> nat \<Rightarrow> read_result"
  sys_poll :: "nat \<Rightarrow> (int \<times> 16 word) list \<Rightarrow> int \<Rightarrow> int \<times> errno \<times> 16 word list"
  sys_so_error :: "nat \<Rightarrow> int \<Rightarrow> int \<times> int"
  sys_clock :: "nat \<Rightarrow> 64 word \<times> 64 word"
  ssl_ctx_new :: "nat \<Rightarrow> bool"
  ssl_ctx_set_cipher_list :: "nat \<Rightarrow> string \<Rightarrow> int"
  ssl_new :: "nat \<Rightarrow> bool"
  ssl_set_fd :: "nat \<Rightarrow> int \<Rightarrow> int"
  ssl_connect :: "nat \<Rightarrow> nat \<Rightarrow> int \<times> ssl_error"
  ssl_write :: "nat \<Rightarrow> nat \<Rightarrow> string \<Rightarrow> int \<times> ssl_error"
  ssl_read :: "nat \<Rightarrow> nat \<Rightarrow> nat \<Rightarrow> string \<times> ssl_error"
  ssl_pending :: "nat \<Rightarrow> nat \<Rightarrow> int"
  hash_order :: "nat \<Rightarrow> int list \<Rightarrow> int list"
  memory :: "nat \<Rightarrow> garbage"

text \<open>The bits of \<open>poll\<close>.\<close>

abbreviation POLLIN :: "16 word" where "POLLIN \<equiv> 1"
abbreviation POLLOUT :: "16 word" where "POLLOUT \<equiv> 4"
abbreviation POLLERR :: "16 word" where "POLLERR \<equiv> 8"
abbreviation POLLHUP :: "16 word" where "POLLHUP \<equiv> 16"

text \<open>
  What POSIX and the C++ standard promise: a new descriptor is none of the open ones, and an
  iteration visits every key once.
\<close>

locale environment =
  fixes E :: env
  assumes socket_fresh: "0 \<le> sys_socket E n S \<Longrightarrow> sys_socket E n S \<notin> set S"
    and accept_fresh: "0 \<le> fst (sys_accept E n S l) \<Longrightarrow> fst (sys_accept E n S l) \<notin> set S"
    and order_set: "set (hash_order E n ks) = set ks"
    and order_distinct: "distinct ks \<Longrightarrow> distinct (hash_order E n ks)"

section \<open>Connection objects\<close>

datatype connection_state = DISCONNECTED | CONNECTING | CONNECTED | AUTHENTICATED | ERROR

datatype connection_type = POOL | WORKER

text \<open>The order of the enumerators, which \<open>is_connected\<close> compares.\<close>

instantiation connection_state :: linorder
begin

fun state_rank :: "connection_state \<Rightarrow> nat" where
  "state_rank DISCONNECTED = 0"
| "state_rank CONNECTING = 1"
| "state_rank CONNECTED = 2"
| "state_rank AUTHENTICATED = 3"
| "state_rank ERROR = 4"

definition less_eq_connection_state :: "connection_state \<Rightarrow> connection_state \<Rightarrow> bool" where
  "s \<le> t \<longleftrightarrow> state_rank s \<le> state_rank t"

definition less_connection_state :: "connection_state \<Rightarrow> connection_state \<Rightarrow> bool" where
  "s < t \<longleftrightarrow> state_rank s < state_rank t"

instance
proof
  fix s t u :: connection_state
  show "s < t \<longleftrightarrow> s \<le> t \<and> \<not> t \<le> s" "s \<le> s" "s \<le> t \<or> t \<le> s"
    by (auto simp: less_eq_connection_state_def less_connection_state_def)
  show "s \<le> t \<Longrightarrow> t \<le> u \<Longrightarrow> s \<le> u" by (simp add: less_eq_connection_state_def)
  show "s \<le> t \<Longrightarrow> t \<le> s \<Longrightarrow> s = t"
    by (cases s; cases t) (simp_all add: less_eq_connection_state_def)
qed

end

text \<open>
  The two kinds of closures the program installs as callbacks: those of \<open>PoolManager\<close>, which capture
  \<open>this\<close>, and those of \<open>WorkerManager\<close>, which also capture the connection's address.
\<close>

datatype closure = Pool_closure | Worker_closure nat

record impl =
  ssl :: bool
  ctx :: bool
  sni_hostname :: string
  tls_handshake_complete :: bool
  tls_want_read :: bool
  tls_want_write :: bool
  ssl_fd_attached :: bool

record connection =
  pimpl :: "impl option"
  fd :: int
  ctype :: connection_type
  cname :: string
  state :: connection_state
  read_buffer :: string
  message_cb :: "closure option"
  state_cb :: "closure option"
  should_close :: bool

section \<open>The world below the components\<close>

text \<open>
  \<open>Sent\<close>: bytes the kernel or OpenSSL took for a descriptor; \<open>Closed\<close>: \<open>close\<close> of a descriptor;
  \<open>Tls_shutdown\<close>: the close notification of \<open>SSL_shutdown\<close>; \<open>Slept\<close>: \<open>usleep\<close>; \<open>Printed\<close>: a line on
  the standard output.
\<close>

datatype effect =
  Sent int string | Closed int | Tls_shutdown int | Slept int | Printed string

record net =
  heap :: "nat \<Rightarrow> connection option"
  next_addr :: nat
  open_fds :: "int list"
  ticks :: nat
  effects :: "effect list"

definition ask :: "(nat \<Rightarrow> 'a) \<Rightarrow> ('z net_scheme, 'a) M" where
  "ask f = (\<lambda>w. (Inr (f (ticks w)), w\<lparr>ticks := Suc (ticks w)\<rparr>))"

definition emit :: "effect \<Rightarrow> ('z net_scheme, unit) M" where
  "emit e = mmodify (\<lambda>w. w\<lparr>effects := effects w @ [e]\<rparr>)"

definition register_fd :: "int \<Rightarrow> ('z net_scheme, unit) M" where
  "register_fd f = mwhen (f \<ge> 0) (mmodify (\<lambda>w. w\<lparr>open_fds := f # open_fds w\<rparr>))"

definition close_fd :: "int \<Rightarrow> ('z net_scheme, unit) M" where
  "close_fd f = mthen (mmodify (\<lambda>w. w\<lparr>open_fds := filter (\<lambda>g. g \<noteq> f) (open_fds w)\<rparr>))
                      (emit (Closed f))"

text \<open>Reading and writing through a pointer; a freed or never allocated object is undefined behaviour.\<close>

definition deref :: "nat \<Rightarrow> ('z net_scheme, connection) M" where
  "deref a = (\<lambda>w. case heap w a of None \<Rightarrow> (Inl Undefined, w) | Some c \<Rightarrow> (Inr c, w))"

definition update_conn :: "nat \<Rightarrow> (connection \<Rightarrow> connection) \<Rightarrow> ('z net_scheme, unit) M" where
  "update_conn a f = mbind (deref a) (\<lambda>c. mmodify (\<lambda>w. w\<lparr>heap := (heap w)(a \<mapsto> f c)\<rparr>))"

definition alloc :: "connection \<Rightarrow> ('z net_scheme, nat) M" where
  "alloc c = (\<lambda>w. (Inr (next_addr w),
     w\<lparr>heap := (heap w)(next_addr w \<mapsto> c), next_addr := Suc (next_addr w)\<rparr>))"

definition free :: "nat \<Rightarrow> ('z net_scheme, unit) M" where
  "free a = mmodify (\<lambda>w. w\<lparr>heap := (heap w)(a := None)\<rparr>)"

text \<open>\<open>pimpl_->\<close>: a null \<open>unique_ptr\<close> is undefined behaviour too.\<close>

definition impl_of :: "nat \<Rightarrow> ('z net_scheme, impl) M" where
  "impl_of a = mbind (deref a) (\<lambda>c.
     case pimpl c of None \<Rightarrow> mfail Undefined | Some i \<Rightarrow> mret i)"

definition update_impl :: "nat \<Rightarrow> (impl \<Rightarrow> impl) \<Rightarrow> ('z net_scheme, unit) M" where
  "update_impl a f = mbind (impl_of a) (\<lambda>i. update_conn a (\<lambda>c. c\<lparr>pimpl := Some (f i)\<rparr>))"

section \<open>Frames of the primitives\<close>

text \<open>
  The part of an object that no operation on it changes once its callbacks are set is its key: its
  descriptor, type, name and callbacks, and whether it was moved from.
  \<open>live a k\<close>: the object at \<open>a\<close> exists and has the key \<open>k\<close>; \<open>holds a k s\<close>: moreover \<open>s\<close> is its
  buffered input.
\<close>

type_synonym key =
  "int \<times> connection_type \<times> string \<times> closure option \<times> closure option \<times> bool"

definition key_of :: "connection \<Rightarrow> key" where
  "key_of c = (fd c, ctype c, cname c, message_cb c, state_cb c, pimpl c = None)"

definition holds :: "nat \<Rightarrow> key \<Rightarrow> string \<Rightarrow> 'z net_scheme \<Rightarrow> bool" where
  "holds a k s w \<longleftrightarrow>
     a < next_addr w \<and> (\<exists>c. heap w a = Some c \<and> key_of c = k \<and> read_buffer c = s)"

definition live :: "nat \<Rightarrow> key \<Rightarrow> 'z net_scheme \<Rightarrow> bool" where
  "live a k w \<longleftrightarrow> a < next_addr w \<and> (\<exists>c. heap w a = Some c \<and> key_of c = k)"

text \<open>
  How an operation may change an object it did not create: the key stays, and a connection that is
  marked for closing stays marked.
\<close>

definition evolves :: "connection \<Rightarrow> connection \<Rightarrow> bool" where
  "evolves c c' \<longleftrightarrow> key_of c' = key_of c \<and> (should_close c \<longrightarrow> should_close c')"

lemmas evolves_defs = evolves_def key_of_def

lemma live_holds: "live a k w \<longleftrightarrow> (\<exists>s. holds a k s w)"
  by (auto simp: live_def holds_def)

lemmas net_defs = ask_def emit_def register_fd_def close_fd_def deref_def update_conn_def alloc_def
  free_def impl_of_def update_impl_def

lemma ask_apply [simp]: "ask f w = (Inr (f (ticks w)), w\<lparr>ticks := Suc (ticks w)\<rparr>)"
  by (simp add: ask_def)

lemma emit_apply [simp]: "emit e w = (Inr (), w\<lparr>effects := effects w @ [e]\<rparr>)"
  by (simp add: emit_def)

lemma deref_Some [simp]: "heap w a = Some c \<Longrightarrow> deref a w = (Inr c, w)"
  by (simp add: deref_def)

lemma deref_None [simp]: "heap w a = None \<Longrightarrow> deref a w = (Inl Undefined, w)"
  by (simp add: deref_def)

lemma update_conn_Some [simp]:
  "heap w a = Some c \<Longrightarrow> update_conn a f w = (Inr (), w\<lparr>heap := (heap w)(a \<mapsto> f c)\<rparr>)"
  by (simp add: update_conn_def)

lemma update_conn_None [simp]: "heap w a = None \<Longrightarrow> update_conn a f w = (Inl Undefined, w)"
  by (simp add: update_conn_def)

lemma impl_of_Some [simp]:
  "heap w a = Some c \<Longrightarrow> pimpl c = Some i \<Longrightarrow> impl_of a w = (Inr i, w)"
  by (simp add: impl_of_def)

lemma update_impl_Some [simp]:
  "heap w a = Some c \<Longrightarrow> pimpl c = Some i \<Longrightarrow>
   update_impl a f w = (Inr (), w\<lparr>heap := (heap w)(a \<mapsto> c\<lparr>pimpl := Some (f i)\<rparr>)\<rparr>)"
  by (simp add: update_impl_def)

text \<open>Only failures of undefined behaviour come from the primitives.\<close>

lemma only_fails_ask [safe]: "only_fails S (ask f)"
  by (simp add: only_fails_def)

lemma only_fails_emit [safe]: "only_fails S (emit e)"
  by (simp add: only_fails_def)

lemma only_fails_alloc [safe]: "only_fails S (alloc c)"
  by (simp add: only_fails_def alloc_def)

lemma only_fails_fds [safe]: "only_fails S (register_fd f)" "only_fails S (close_fd f)"
  unfolding register_fd_def close_fd_def by (auto intro: safe)

lemma only_fails_free [safe]: "only_fails S (free a)"
  unfolding free_def by (rule safe)

lemma only_fails_deref [safe]: "Undefined \<in> S \<Longrightarrow> only_fails S (deref a)"
  by (simp add: only_fails_iff deref_def split: option.split)

lemma only_fails_objects [safe]:
  assumes "Undefined \<in> S"
  shows "only_fails S (update_conn a f)" "only_fails S (impl_of a)" "only_fails S (update_impl a g)"
  using assms unfolding update_conn_def impl_of_def update_impl_def by (auto intro!: safe)

text \<open>What lies above the network, in the extension of the record, is out of reach of the primitives.\<close>

lemma keeps_more_prims [frame]:
  "keeps net.more (ask f)" "keeps net.more (emit e)" "keeps net.more (register_fd d)"
  "keeps net.more (close_fd d)" "keeps net.more (deref a)" "keeps net.more (update_conn a u)"
  "keeps net.more (alloc c)" "keeps net.more (free a)" "keeps net.more (impl_of a)"
  "keeps net.more (update_impl a v)"
  by (auto simp: keeps_def m_defs net_defs split: option.splits)

lemma keeps_fds_prims [frame]:
  "keeps open_fds (ask f)" "keeps open_fds (emit e)" "keeps open_fds (deref a)"
  "keeps open_fds (update_conn a u)" "keeps open_fds (impl_of a)" "keeps open_fds (update_impl a v)"
  "keeps next_addr (ask f)" "keeps next_addr (emit e)" "keeps next_addr (deref a)"
  "keeps next_addr (update_conn a u)" "keeps next_addr (impl_of a)" "keeps next_addr (update_impl a v)"
  by (auto simp: keeps_def m_defs net_defs split: option.splits)

lemma invar_holds_prims [frame]:
  "invar (holds a k s) (ask f)" "invar (holds a k s) (emit e)" "invar (holds a k s) (register_fd d)"
  "invar (holds a k s) (close_fd d)" "invar (holds a k s) (deref b)" "invar (holds a k s) (alloc c)"
  "invar (holds a k s) (impl_of b)" "invar (holds a k s) (update_impl b v)"
  by (auto simp: invar_def holds_def m_defs net_defs key_of_def split: option.splits)

lemma invar_holds_update:
  "(\<And>c. evolves c (f c)) \<Longrightarrow> (\<And>c. read_buffer (f c) = read_buffer c) \<Longrightarrow>
   invar (holds a k s) (update_conn b f)"
  by (auto simp: invar_def holds_def evolves_def m_defs net_defs split: option.splits)

lemma invar_live_update:
  "(\<And>c. evolves c (f c)) \<Longrightarrow> invar (live a k) (update_conn b f)"
  by (auto simp: invar_def live_def evolves_def m_defs net_defs split: option.splits)

lemma invar_live:
  "(\<And>s. invar (\<lambda>w. W w \<and> holds a k s w) m) \<Longrightarrow> invar (\<lambda>w. W w \<and> live a k w) m"
  unfolding invar_def live_holds by blast

section \<open>Invariants of the world\<close>

text \<open>
  An invariant that looks at the objects only through their keys, and does not mind one more
  connection being marked for closing, survives everything the operations of a connection do by
  themselves.
\<close>

locale local_invariant =
  fixes W :: "'z net_scheme \<Rightarrow> bool"
  assumes W_ticks: "W w \<Longrightarrow> W (w\<lparr>ticks := n\<rparr>)"
    and W_effects: "W w \<Longrightarrow> W (w\<lparr>effects := es\<rparr>)"
    and W_update:
      "W w \<Longrightarrow> heap w a = Some c \<Longrightarrow> evolves c c' \<Longrightarrow> W (w\<lparr>heap := (heap w)(a \<mapsto> c')\<rparr>)"
begin

lemma W_prims [frame]:
  "invar W (ask f)" "invar W (emit e)" "invar W (deref a)" "invar W (impl_of a)"
  "invar W (update_impl a v)"
  by (auto simp: invar_def m_defs net_defs evolves_defs W_ticks W_effects W_update split: option.splits)

lemma W_update_conn: "(\<And>c. evolves c (f c)) \<Longrightarrow> invar W (update_conn a f)"
  by (auto simp: invar_def m_defs net_defs W_update split: option.splits)

lemma both_prims [frame]:
  "invar (\<lambda>w. W w \<and> holds a k s w) (ask f)" "invar (\<lambda>w. W w \<and> holds a k s w) (emit e)"
  "invar (\<lambda>w. W w \<and> holds a k s w) (deref b)" "invar (\<lambda>w. W w \<and> holds a k s w) (impl_of b)"
  "invar (\<lambda>w. W w \<and> holds a k s w) (update_impl b v)"
  by (intro invar_conj frame W_prims)+

lemma both_update:
  "(\<And>c. evolves c (f c)) \<Longrightarrow> (\<And>c. read_buffer (f c) = read_buffer c) \<Longrightarrow>
   invar (\<lambda>w. W w \<and> holds a k s w) (update_conn b f)"
  by (intro invar_conj W_update_conn invar_holds_update) auto

lemma both_live_update:
  "(\<And>c. evolves c (f c)) \<Longrightarrow> invar (\<lambda>w. W w \<and> live a k w) (update_conn b f)"
  by (intro invar_conj W_update_conn invar_live_update) auto

end

section \<open>A calm environment\<close>

text \<open>
  An environment in which every call succeeds at once and nothing arrives by itself: the instance on
  which concrete runs are evaluated.
\<close>

definition fresh_fd :: "int list \<Rightarrow> int" where
  "fresh_fd S = 1 + foldr max S 2"

definition calm_env :: env where
  "calm_env =
     \<lparr>sys_socket = (\<lambda>n S. fresh_fd S),
      sys_accept = (\<lambda>n S l. (fresh_fd S, Eother 0, ''10.0.0.7'', 4000)),
      sys_set_nonblocking = (\<lambda>n f. 0),
      sys_getaddrinfo = (\<lambda>n h. 0),
      sys_connect = (\<lambda>n f p. (0, Eother 0)),
      sys_bind = (\<lambda>n f p. 0),
      sys_listen = (\<lambda>n f b. 0),
      sys_write = (\<lambda>n f s. int (length s)),
      sys_read = (\<lambda>n f k. Read_error Eagain),
      sys_poll = (\<lambda>n pfds t. (0, Eother 0, [])),
      sys_so_error = (\<lambda>n f. (0, 0)),
      sys_clock = (\<lambda>n. (of_nat n, 0)),
      ssl_ctx_new = (\<lambda>n. True),
      ssl_ctx_set_cipher_list = (\<lambda>n s. 1),
      ssl_new = (\<lambda>n. True),
      ssl_set_fd = (\<lambda>n f. 1),
      ssl_connect = (\<lambda>n a. (1, Ssl_other 0)),
      ssl_write = (\<lambda>n a s. (int (length s), Ssl_other 0)),
      ssl_read = (\<lambda>n a k. ([], Ssl_want_read)),
      ssl_pending = (\<lambda>n a. 0),
      hash_order = (\<lambda>n ks. ks),
      memory = (\<lambda>n. \<lparr>any_int = 0, any_bool = False, any_u16 = 0, any_u64 = 0\<rparr>)\<rparr>"

lemma calm_fields [simp]:
  "sys_socket calm_env n S = fresh_fd S"
  "sys_accept calm_env n S l = (fresh_fd S, Eother 0, ''10.0.0.7'', 4000)"
  "hash_order calm_env n ks = ks"
  "ssl_write calm_env n a s = (int (length s), Ssl_other 0)"
  "sys_write calm_env n f s = int (length s)"
  "memory calm_env n = \<lparr>any_int = 0, any_bool = False, any_u16 = 0, any_u64 = 0\<rparr>"
  by (simp_all add: calm_env_def)

lemma fresh_fd_above: "x \<in> set S \<Longrightarrow> x < fresh_fd S"
proof (induction S)
  case (Cons y S)
  then show ?case by (auto simp: fresh_fd_def)
qed simp

interpretation calm: environment calm_env
  by unfold_locales (auto dest: fresh_fd_above)

text \<open>The laws are about three of the fields only.\<close>

lemma environment_cong:
  assumes "environment E" and "sys_socket E' = sys_socket E" and "sys_accept E' = sys_accept E"
    and "hash_order E' = hash_order E"
  shows "environment E'"
  using assms unfolding environment_def by simp

end
