(* ===== verification/Connection.thy ===== *)
theory Connection
  imports Network
begin

text \<open>
  One TCP or TLS connection: class \<open>Connection\<close> and \<open>connect_to_pool\<close> of
  \<open>src/gpu-proxy-cpp/src/connection.hpp\<close> and \<open>connection.cpp\<close>.

  A callback is invoked through the parameters \<open>on_state\<close> and \<open>on_message\<close>, which receive the closure
  stored in the object.
\<close>

type_synonym 'w state_handler = "closure \<Rightarrow> connection_state \<Rightarrow> ('w, unit) M"
type_synonym 'w message_handler = "closure \<Rightarrow> string \<Rightarrow> ('w, unit) M"

section \<open>State\<close>

definition is_connected :: "connection \<Rightarrow> bool" where
  "is_connected c \<longleftrightarrow> state c \<ge> CONNECTED"

definition set_state ::
    "('z net_scheme) state_handler \<Rightarrow> nat \<Rightarrow> connection_state \<Rightarrow> ('z net_scheme, unit) M" where
  "set_state on_state a s =
     mbind (deref a) (\<lambda>c.
     mwhen (state c \<noteq> s)
       (mthen (update_conn a (\<lambda>c. c\<lparr>state := s\<rparr>))
              (case state_cb c of None \<Rightarrow> mret () | Some cb \<Rightarrow> on_state cb s)))"

definition mark_for_closing :: "nat \<Rightarrow> ('z net_scheme, unit) M" where
  "mark_for_closing a = update_conn a (\<lambda>c. c\<lparr>should_close := True\<rparr>)"

definition set_message_callback :: "nat \<Rightarrow> closure \<Rightarrow> ('z net_scheme, unit) M" where
  "set_message_callback a cb = update_conn a (\<lambda>c. c\<lparr>message_cb := Some cb\<rparr>)"

definition set_state_callback :: "nat \<Rightarrow> closure \<Rightarrow> ('z net_scheme, unit) M" where
  "set_state_callback a cb = update_conn a (\<lambda>c. c\<lparr>state_cb := Some cb\<rparr>)"

section \<open>Construction, destruction, moves\<close>

definition fresh_impl :: impl where
  "fresh_impl = \<lparr>ssl = False, ctx = False, sni_hostname = [], tls_handshake_complete = False,
     tls_want_read = False, tls_want_write = False, ssl_fd_attached = False\<rparr>"

text \<open>
  The constructor.  No callback is installed yet when it sets the state, and a failure to make the
  descriptor non-blocking is only reported.
\<close>

definition new_connection ::
    "env \<Rightarrow> ('z net_scheme) state_handler \<Rightarrow> int \<Rightarrow> connection_type \<Rightarrow> string \<Rightarrow> ('z net_scheme, nat) M"
  where
  "new_connection E on_state f ty name =
     mbind (alloc \<lparr>pimpl = Some fresh_impl, fd = f, ctype = ty, cname = name, state = DISCONNECTED,
                   read_buffer = [], message_cb = None, state_cb = None, should_close = False\<rparr>) (\<lambda>a.
     mthen (if ty = WORKER then set_state on_state a CONNECTED else set_state on_state a CONNECTING)
     (mbind (ask (\<lambda>n. sys_set_nonblocking E n f)) (\<lambda>_.
     mret a)))"

definition delete_connection :: "nat \<Rightarrow> ('z net_scheme, unit) M" where
  "delete_connection a =
     mbind (deref a) (\<lambda>c.
     mbind (impl_of a) (\<lambda>i.
     mthen (mwhen (ssl i)
              (mthen (emit (Tls_shutdown (fd c))) (update_impl a (\<lambda>i. i\<lparr>ssl := False\<rparr>))))
     (mthen (mwhen (ctx i) (update_impl a (\<lambda>i. i\<lparr>ctx := False\<rparr>)))
     (mthen (mwhen (fd c \<ge> 0) (close_fd (fd c)))
     (free a)))))"

text \<open>
  The move constructor.  The source keeps its type, state and flag and loses its descriptor and its
  \<open>pimpl\<close>; the strings and functions it is left with are empty.
\<close>

definition moved_from :: "connection \<Rightarrow> connection" where
  "moved_from c = c\<lparr>pimpl := None, fd := -1, cname := [], read_buffer := [], message_cb := None,
     state_cb := None\<rparr>"

definition move_connection :: "nat \<Rightarrow> ('z net_scheme, nat) M" where
  "move_connection a =
     mbind (deref a) (\<lambda>c.
     mbind (alloc c) (\<lambda>b.
     mthen (update_conn a moved_from) (mret b)))"

definition move_assign :: "nat \<Rightarrow> nat \<Rightarrow> ('z net_scheme, unit) M" where
  "move_assign a b =
     mwhen (a \<noteq> b)
       (mbind (deref a) (\<lambda>c.
        mthen (mwhen (fd c \<ge> 0) (close_fd (fd c)))
        (mbind (impl_of a) (\<lambda>i.
        mbind (deref b) (\<lambda>d.
        mthen (update_conn a (\<lambda>_. d)) (update_conn b moved_from))))))"

section \<open>TLS\<close>

definition create_ssl_context :: "env \<Rightarrow> nat \<Rightarrow> ('z net_scheme, bool) M" where
  "create_ssl_context E a =
     mbind (ask (\<lambda>n. ssl_ctx_new E n)) (\<lambda>ok.
     mthen (update_impl a (\<lambda>i. i\<lparr>ctx := ok\<rparr>))
     (if \<not> ok then mret False
      else mbind (ask (\<lambda>n. ssl_ctx_set_cipher_list E n ''DEFAULT:@SECLEVEL=0'')) (\<lambda>r.
           if r \<le> 0 then mthen (update_impl a (\<lambda>i. i\<lparr>ctx := False\<rparr>)) (mret False)
           else mret True)))"

definition setup_tls ::
    "env \<Rightarrow> ('z net_scheme) state_handler \<Rightarrow> nat \<Rightarrow> string \<Rightarrow> ('z net_scheme, bool) M" where
  "setup_tls E on_state a host =
     mbind (deref a) (\<lambda>c.
     if ctype c \<noteq> POOL then mret False
     else
       mthen (update_impl a (\<lambda>i. i\<lparr>sni_hostname := host\<rparr>))
       (mbind (create_ssl_context E a) (\<lambda>ok.
        if \<not> ok then mthen (set_state on_state a ERROR) (mret False)
        else mbind (ask (\<lambda>n. ssl_new E n)) (\<lambda>ok.
             mthen (update_impl a (\<lambda>i. i\<lparr>ssl := ok\<rparr>))
             (if \<not> ok then mthen (set_state on_state a ERROR) (mret False)
              else mret True)))))"

definition tls_handshake_pending :: "impl \<Rightarrow> bool" where
  "tls_handshake_pending i \<longleftrightarrow> ssl i \<and> \<not> tls_handshake_complete i"

definition tls_waiting_for_read :: "impl \<Rightarrow> bool" where
  "tls_waiting_for_read i \<longleftrightarrow> tls_handshake_pending i \<and> tls_want_read i"

definition tls_waiting_for_write :: "impl \<Rightarrow> bool" where
  "tls_waiting_for_write i \<longleftrightarrow> tls_handshake_pending i \<and> tls_want_write i"

text \<open>The part of \<open>perform_tls_handshake\<close> after the socket is attached.\<close>

definition handshake_step ::
    "env \<Rightarrow> ('z net_scheme) state_handler \<Rightarrow> nat \<Rightarrow> ('z net_scheme, bool) M" where
  "handshake_step E on_state a =
     mthen (update_impl a (\<lambda>i. i\<lparr>tls_want_read := False, tls_want_write := False\<rparr>))
     (mbind (ask (\<lambda>n. ssl_connect E n a)) (\<lambda>(ret, err).
      if ret = 1
      then mthen (update_impl a (\<lambda>i. i\<lparr>tls_handshake_complete := True, tls_want_read := False,
                                       tls_want_write := False\<rparr>))
           (mthen (set_state on_state a CONNECTED) (mret True))
      else if err = Ssl_want_read
      then mthen (update_impl a (\<lambda>i. i\<lparr>tls_want_read := True\<rparr>)) (mret False)
      else if err = Ssl_want_write
      then mthen (update_impl a (\<lambda>i. i\<lparr>tls_want_write := True\<rparr>)) (mret False)
      else mthen (set_state on_state a ERROR)
           (mthen (mark_for_closing a) (mret False))))"

definition perform_tls_handshake ::
    "env \<Rightarrow> ('z net_scheme) state_handler \<Rightarrow> nat \<Rightarrow> ('z net_scheme, bool) M" where
  "perform_tls_handshake E on_state a =
     mbind (deref a) (\<lambda>c.
     mbind (impl_of a) (\<lambda>i.
     if \<not> ssl i \<or> tls_handshake_complete i then mret (tls_handshake_complete i)
     else if \<not> ssl_fd_attached i
     then mbind (ask (\<lambda>n. ssl_set_fd E n (fd c))) (\<lambda>r.
          if r = 0
          then mthen (set_state on_state a ERROR) (mthen (mark_for_closing a) (mret False))
          else mthen (update_impl a (\<lambda>i. i\<lparr>ssl_fd_attached := True\<rparr>))
                     (handshake_step E on_state a))
     else handshake_step E on_state a))"

definition continue_tls_handshake ::
    "env \<Rightarrow> ('z net_scheme) state_handler \<Rightarrow> nat \<Rightarrow> ('z net_scheme, bool) M" where
  "continue_tls_handshake E on_state a = perform_tls_handshake E on_state a"

section \<open>Sending a line\<close>

definition send_line :: "env \<Rightarrow> nat \<Rightarrow> string \<Rightarrow> ('z net_scheme, bool) M" where
  "send_line E a line =
     mbind (deref a) (\<lambda>c.
     mbind (impl_of a) (\<lambda>i.
     if \<not> is_connected c \<and> \<not> tls_handshake_complete i then mret False
     else let full_line = line @ [newline] in
       mbind (if ssl i then ask (\<lambda>n. ssl_write E n a full_line)
              else ask (\<lambda>n. (sys_write E n (fd c) full_line, Ssl_other 0))) (\<lambda>(sent, err).
       if sent \<le> 0
       then if ssl i \<and> (err = Ssl_want_write \<or> err = Ssl_want_read) then mret True
            else mthen (mark_for_closing a) (mret False)
       else mthen (emit (Sent (fd c) (take (nat sent) full_line)))
                  (mret (nat sent = length full_line)))))"

section \<open>Receiving\<close>

definition strip_cr :: "string \<Rightarrow> string" where
  "strip_cr line = (if line \<noteq> [] \<and> last line = carriage_return then butlast line else line)"

text \<open>
  \<open>process_read_buffer\<close> reads the buffer again in every round, after the callback.  A round takes at
  least one character out of it, so a callback that leaves the buffer alone needs no more rounds than
  the buffer has characters, and one to find it without a newline.
\<close>

fun process_read_buffer ::
    "('z net_scheme) message_handler \<Rightarrow> nat \<Rightarrow> nat \<Rightarrow> ('z net_scheme, unit) M" where
  "process_read_buffer on_message 0 a = mfail Out_of_fuel"
| "process_read_buffer on_message (Suc fuel) a =
     mbind (deref a) (\<lambda>c.
     case find_char newline (read_buffer c) of
       None \<Rightarrow> mret ()
     | Some newline_pos \<Rightarrow>
         let line = strip_cr (take newline_pos (read_buffer c)) in
         mthen (update_conn a (\<lambda>c. c\<lparr>read_buffer := drop (newline_pos + 1) (read_buffer c)\<rparr>))
         (mthen (case message_cb c of None \<Rightarrow> mret () | Some cb \<Rightarrow> on_message cb line)
                (process_read_buffer on_message fuel a)))"

text \<open>The end of \<open>read_data\<close>, once \<open>bytes\<close> have arrived.\<close>

definition receive_bytes ::
    "('z net_scheme) message_handler \<Rightarrow> nat \<Rightarrow> string \<Rightarrow> ('z net_scheme, int) M" where
  "receive_bytes on_message a bytes =
     mthen (update_conn a (\<lambda>c. c\<lparr>read_buffer := read_buffer c @ bytes\<rparr>))
     (mbind (deref a) (\<lambda>c.
      mthen (process_read_buffer on_message (Suc (length (read_buffer c))) a)
            (mret (int (length bytes)))))"

definition buffer_size :: nat where
  "buffer_size = 8192"

definition read_data ::
    "env \<Rightarrow> ('z net_scheme) message_handler \<Rightarrow> nat \<Rightarrow> ('z net_scheme, int) M" where
  "read_data E on_message a =
     mbind (deref a) (\<lambda>c.
     mbind (impl_of a) (\<lambda>i.
     if tls_handshake_pending i then mret 0
     else if ssl i
     then mbind (ask (\<lambda>n. ssl_read E n a (buffer_size - 1))) (\<lambda>(bytes, err).
          if bytes = []
          then if err = Ssl_want_read \<or> err = Ssl_want_write then mret 0
               else mthen (mark_for_closing a) (mret (-1))
          else receive_bytes on_message a bytes)
     else mbind (ask (\<lambda>n. sys_read E n (fd c) (buffer_size - 1))) (\<lambda>r.
          case r of
            Read_error e \<Rightarrow> if e = Eagain then mret 0 else mthen (mark_for_closing a) (mret (-1))
          | Read_eof \<Rightarrow> mthen (mark_for_closing a) (mret (-1))
          | Read_bytes bytes \<Rightarrow>
              if bytes = [] then mthen (mark_for_closing a) (mret (-1))
              else receive_bytes on_message a bytes)))"

section \<open>Outgoing connections\<close>

text \<open>\<open>None\<close> is the null pointer; a connection whose TLS setup failed is destroyed on return.\<close>

definition connect_to_pool ::
    "env \<Rightarrow> ('z net_scheme) state_handler \<Rightarrow> string \<Rightarrow> 16 word \<Rightarrow> string \<Rightarrow>
     ('z net_scheme, nat option) M" where
  "connect_to_pool E on_state host port name =
     mbind (mget open_fds) (\<lambda>S.
     mbind (ask (\<lambda>n. sys_socket E n S)) (\<lambda>f.
     if f < 0 then mret None
     else
       mthen (register_fd f)
       (mbind (ask (\<lambda>n. sys_set_nonblocking E n f)) (\<lambda>r.
        if r < 0 then mthen (close_fd f) (mret None)
        else mbind (ask (\<lambda>n. sys_getaddrinfo E n host)) (\<lambda>r.
        if r \<noteq> 0 then mthen (close_fd f) (mret None)
        else mbind (ask (\<lambda>n. sys_connect E n f port)) (\<lambda>(r, err).
        if r < 0 \<and> err \<noteq> Einprogress then mthen (close_fd f) (mret None)
        else mbind (new_connection E on_state f POOL name) (\<lambda>a.
             mbind (setup_tls E on_state a host) (\<lambda>ok.
             if \<not> ok then mthen (delete_connection a) (mret None)
             else mret (Some a)))))))))"

section \<open>State changes and objects\<close>

lemma set_state_same:
  "heap w a = Some c \<Longrightarrow> state c = s \<Longrightarrow> set_state on_state a s w = (Inr (), w)"
  by (simp add: set_state_def)

lemma set_state_silent:
  "heap w a = Some c \<Longrightarrow> state_cb c = None \<Longrightarrow>
   set_state on_state a s w = (Inr (), w\<lparr>heap := (heap w)(a \<mapsto> c\<lparr>state := s\<rparr>)\<rparr>)"
  by (cases "state c = s") (simp_all add: set_state_def fun_upd_idem)

lemma set_state_calls:
  "heap w a = Some c \<Longrightarrow> state_cb c = Some cb \<Longrightarrow> state c \<noteq> s \<Longrightarrow>
   set_state on_state a s w = on_state cb s (w\<lparr>heap := (heap w)(a \<mapsto> c\<lparr>state := s\<rparr>)\<rparr>)"
  by (simp add: set_state_def)

lemma mark_for_closing_apply [simp]:
  "heap w a = Some c \<Longrightarrow>
   mark_for_closing a w = (Inr (), w\<lparr>heap := (heap w)(a \<mapsto> c\<lparr>should_close := True\<rparr>)\<rparr>)"
  by (simp add: mark_for_closing_def)

definition fresh_connection :: "int \<Rightarrow> connection_type \<Rightarrow> string \<Rightarrow> connection" where
  "fresh_connection f ty name =
     \<lparr>pimpl = Some fresh_impl, fd = f, ctype = ty, cname = name,
      state = (if ty = WORKER then CONNECTED else CONNECTING),
      read_buffer = [], message_cb = None, state_cb = None, should_close = False\<rparr>"

lemma new_connection_apply:
  "new_connection E on_state f ty name w =
     (Inr (next_addr w),
      w\<lparr>heap := (heap w)(next_addr w \<mapsto> fresh_connection f ty name),
        next_addr := Suc (next_addr w), ticks := Suc (ticks w)\<rparr>)"
  by (cases ty)
    (simp_all add: new_connection_def alloc_def mbind_def mthen_def set_state_def mwhen_def
      fresh_connection_def)

lemma delete_connection_moved:
  "heap w a = Some c \<Longrightarrow> pimpl c = None \<Longrightarrow> delete_connection a w = (Inl Undefined, w)"
  by (simp add: delete_connection_def impl_of_def)

text \<open>What the destructor does to a connection that was not moved from.\<close>

lemma delete_connection_apply:
  assumes "heap w a = Some c" and "pimpl c = Some i"
  shows "delete_connection a w =
    (Inr (), w\<lparr>heap := (heap w)(a := None),
       open_fds := (if fd c \<ge> 0 then filter (\<lambda>g. g \<noteq> fd c) (open_fds w) else open_fds w),
       effects := effects w @ (if ssl i then [Tls_shutdown (fd c)] else []) @
                  (if fd c \<ge> 0 then [Closed (fd c)] else [])\<rparr>)"
  using assms
  by (simp add: delete_connection_def mwhen_def mthen_def mbind_def update_impl_def close_fd_def
      free_def)

section \<open>Outgoing connections\<close>

text \<open>The object \<open>connect_to_pool\<close> returns: connecting, with TLS prepared and no callbacks.\<close>

definition outgoing :: "int \<Rightarrow> string \<Rightarrow> string \<Rightarrow> connection" where
  "outgoing f host name = (fresh_connection f POOL name)
     \<lparr>pimpl := Some (fresh_impl\<lparr>sni_hostname := host, ctx := True, ssl := True\<rparr>)\<rparr>"

definition cipher_list_ok :: "env \<Rightarrow> nat \<Rightarrow> bool" where
  "cipher_list_ok E n \<longleftrightarrow> 0 < ssl_ctx_set_cipher_list E n ''DEFAULT:@SECLEVEL=0''"

lemma create_ssl_context_apply:
  assumes "heap w a = Some c" and "pimpl c = Some i"
  shows "create_ssl_context E a w =
    (let new = ssl_ctx_new E (ticks w); ok = new \<and> cipher_list_ok E (Suc (ticks w)) in
     (Inr ok, w\<lparr>heap := (heap w)(a \<mapsto> c\<lparr>pimpl := Some (i\<lparr>ctx := ok\<rparr>)\<rparr>),
                ticks := (if new then Suc (Suc (ticks w)) else Suc (ticks w))\<rparr>))"
  using assms
  by (simp add: create_ssl_context_def mbind_def mthen_def update_impl_def update_conn_def
      impl_of_def cipher_list_ok_def Let_def not_le)

definition tls_ok :: "env \<Rightarrow> nat \<Rightarrow> bool" where
  "tls_ok E n \<longleftrightarrow> ssl_ctx_new E n \<and> cipher_list_ok E (Suc n) \<and> ssl_new E (Suc (Suc n))"

lemma setup_tls_ok:
  assumes "heap w a = Some (fresh_connection f POOL name)" and "tls_ok E (ticks w)"
  shows "setup_tls E on_state a host w =
    (Inr True, w\<lparr>heap := (heap w)(a \<mapsto> outgoing f host name), ticks := ticks w + 3\<rparr>)"
proof -
  let ?c = "fresh_connection f POOL name"
  let ?i = "fresh_impl\<lparr>sni_hostname := host\<rparr>"
  let ?w1 = "w\<lparr>heap := (heap w)(a \<mapsto> ?c\<lparr>pimpl := Some ?i\<rparr>)\<rparr>"
  have c: "ctype ?c = POOL" "pimpl ?c = Some fresh_impl"
    by (simp_all add: fresh_connection_def)
  have 1: "create_ssl_context E a ?w1 = (Inr True, ?w1\<lparr>heap := (heap w)(a \<mapsto>
      ?c\<lparr>pimpl := Some (?i\<lparr>ctx := True\<rparr>)\<rparr>), ticks := Suc (Suc (ticks w))\<rparr>)"
    using assms(2) create_ssl_context_apply [of ?w1 a "?c\<lparr>pimpl := Some ?i\<rparr>" ?i E]
    by (simp add: tls_ok_def)
  show ?thesis
    using assms c 1
    by (simp add: setup_tls_def mthen_def tls_ok_def outgoing_def)
qed

lemma setup_tls_fails:
  assumes "heap w a = Some (fresh_connection f POOL name)" and "\<not> tls_ok E (ticks w)"
  shows "\<exists>c n i. setup_tls E on_state a host w =
    (Inr False, w\<lparr>heap := (heap w)(a \<mapsto> c), ticks := n\<rparr>) \<and> fd c = f \<and> pimpl c = Some i \<and> \<not> ssl i"
proof -
  let ?c = "fresh_connection f POOL name"
  let ?i = "fresh_impl\<lparr>sni_hostname := host\<rparr>"
  let ?w1 = "w\<lparr>heap := (heap w)(a \<mapsto> ?c\<lparr>pimpl := Some ?i\<rparr>)\<rparr>"
  let ?ok = "ssl_ctx_new E (ticks w) \<and> cipher_list_ok E (Suc (ticks w))"
  have c: "ctype ?c = POOL" "pimpl ?c = Some fresh_impl" "state_cb ?c = None" "fd ?c = f"
    by (simp_all add: fresh_connection_def)
  have 1: "create_ssl_context E a ?w1 = (Inr ?ok, ?w1\<lparr>heap := (heap w)(a \<mapsto>
      ?c\<lparr>pimpl := Some (?i\<lparr>ctx := ?ok\<rparr>)\<rparr>),
      ticks := (if ssl_ctx_new E (ticks w) then Suc (Suc (ticks w)) else Suc (ticks w))\<rparr>)"
    using create_ssl_context_apply [of ?w1 a "?c\<lparr>pimpl := Some ?i\<rparr>" ?i E]
    by (simp add: Let_def)
  have I: "\<not> ssl fresh_impl" by (simp add: fresh_impl_def)
  show ?thesis
  proof (cases ?ok)
    case False
    then have "setup_tls E on_state a host w = (Inr False, w\<lparr>heap := (heap w)(a \<mapsto>
        ?c\<lparr>pimpl := Some (?i\<lparr>ctx := False\<rparr>), state := ERROR\<rparr>),
        ticks := (if ssl_ctx_new E (ticks w) then Suc (Suc (ticks w)) else Suc (ticks w))\<rparr>)"
      using assms(1) c(1,2,3) 1
      by (auto simp: setup_tls_def mthen_def set_state_silent)
    with c(4) show ?thesis by (intro exI conjI) (assumption, simp, simp, simp add: I)
  next
    case True
    with assms have "\<not> ssl_new E (Suc (Suc (ticks w)))" by (simp add: tls_ok_def)
    with True have "setup_tls E on_state a host w = (Inr False, w\<lparr>heap := (heap w)(a \<mapsto>
        ?c\<lparr>pimpl := Some (?i\<lparr>ctx := True, ssl := False\<rparr>), state := ERROR\<rparr>),
        ticks := Suc (Suc (Suc (ticks w)))\<rparr>)"
      using assms(1) c(1,2,3) 1
      by (auto simp: setup_tls_def mthen_def set_state_silent)
    with c(4) show ?thesis by (intro exI conjI) (assumption, simp, simp, simp)
  qed
qed

text \<open>
  \<open>connect_to_pool\<close> as a whole: either nothing is left behind, or one new object and one new open
  descriptor.  The effects and the number of questions asked are the only other changes.
\<close>

lemma connect_to_pool_cases:
  assumes "environment E" and "\<forall>b \<ge> next_addr w. heap w b = None"
  obtains
    (none) w' where "connect_to_pool E on_state host port name w = (Inr None, w')"
      "heap w' = heap w" "open_fds w' = open_fds w" "next_addr w \<le> next_addr w'"
      "net.more w' = net.more w"
  | (some) f w' where
      "connect_to_pool E on_state host port name w = (Inr (Some (next_addr w)), w')"
      "f \<ge> 0" "f \<notin> set (open_fds w)" "open_fds w' = f # open_fds w"
      "heap w' = (heap w)(next_addr w \<mapsto> outgoing f host name)"
      "next_addr w' = Suc (next_addr w)" "effects w' = effects w" "net.more w' = net.more w"
proof -
  let ?f = "sys_socket E (ticks w) (open_fds w)"
  let ?w1 = "w\<lparr>ticks := Suc (ticks w), open_fds := ?f # open_fds w\<rparr>"
  have fresh: "?f \<ge> 0 \<Longrightarrow> ?f \<notin> set (open_fds w)"
    using assms(1) by (rule environment.socket_fresh)
  have F: "?f \<ge> 0 \<Longrightarrow> filter (\<lambda>g. g \<noteq> ?f) (open_fds w) = open_fds w"
    using fresh by (auto intro!: filter_True)
  have N: "heap w (next_addr w) = None" using assms(2) by simp
  consider "?f < 0" | (fail) "?f \<ge> 0"
      "sys_set_nonblocking E (Suc (ticks w)) ?f < 0 \<or>
       sys_getaddrinfo E (Suc (Suc (ticks w))) host \<noteq> 0 \<or>
       (\<exists>r err. sys_connect E (Suc (Suc (Suc (ticks w)))) ?f port = (r, err) \<and> r < 0 \<and> err \<noteq> Einprogress)"
    | (made) r err where "?f \<ge> 0" "\<not> sys_set_nonblocking E (Suc (ticks w)) ?f < 0"
      "sys_getaddrinfo E (Suc (Suc (ticks w))) host = 0"
      "sys_connect E (Suc (Suc (Suc (ticks w)))) ?f port = (r, err)" "\<not> (r < 0 \<and> err \<noteq> Einprogress)"
    by (metis not_less surj_pair)
  then show thesis
  proof cases
    case 1
    then show thesis
      by (intro none [of "w\<lparr>ticks := Suc (ticks w)\<rparr>"]) (simp_all add: connect_to_pool_def)
  next
    case fail
    then have "\<exists>w'. connect_to_pool E on_state host port name w = (Inr None, w') \<and>
        heap w' = heap w \<and> open_fds w' = open_fds w \<and> next_addr w \<le> next_addr w' \<and>
        net.more w' = net.more w"
      using F by (auto simp: connect_to_pool_def mthen_def register_fd_def close_fd_def)
    then show thesis using none by blast
  next
    case made
    let ?w5 = "w\<lparr>open_fds := ?f # open_fds w,
      heap := (heap w)(next_addr w \<mapsto> fresh_connection ?f POOL name), next_addr := Suc (next_addr w),
      ticks := Suc (Suc (Suc (Suc (Suc (ticks w)))))\<rparr>"
    have C: "connect_to_pool E on_state host port name w =
      mbind (setup_tls E on_state (next_addr w) host)
        (\<lambda>ok. if \<not> ok then mthen (delete_connection (next_addr w)) (mret None)
              else mret (Some (next_addr w))) ?w5"
      using made
      by (cases "r < 0") (simp_all add: connect_to_pool_def mthen_def register_fd_def new_connection_apply)
    show thesis
    proof (cases "tls_ok E (ticks ?w5)")
      case True
      have "setup_tls E on_state (next_addr w) host ?w5 = (Inr True, ?w5\<lparr>heap := (heap w)(next_addr w \<mapsto>
          outgoing ?f host name), ticks := ticks ?w5 + 3\<rparr>)"
        using setup_tls_ok [OF _ True, of "next_addr w" ?f name on_state host] by simp
      with C have "connect_to_pool E on_state host port name w = (Inr (Some (next_addr w)),
          ?w5\<lparr>heap := (heap w)(next_addr w \<mapsto> outgoing ?f host name), ticks := ticks ?w5 + 3\<rparr>)"
        by simp
      from some [OF this made(1) fresh] made(1) show thesis by simp
    next
      case False
      from setup_tls_fails [OF _ False, of "next_addr w" ?f name on_state host]
      obtain c n i where s: "setup_tls E on_state (next_addr w) host ?w5 =
          (Inr False, ?w5\<lparr>heap := (heap w)(next_addr w \<mapsto> c), ticks := n\<rparr>)"
        "fd c = ?f" "pimpl c = Some i" "\<not> ssl i" by auto
      with C made F N have "\<exists>w'. connect_to_pool E on_state host port name w = (Inr None, w') \<and>
          heap w' = heap w \<and> open_fds w' = open_fds w \<and> next_addr w \<le> next_addr w' \<and>
          net.more w' = net.more w"
        by (simp add: delete_connection_apply mthen_def fun_upd_idem)
      then show thesis using none by blast
    qed
  qed
qed

section \<open>Lines\<close>

text \<open>
  The reference for the framing of the byte stream: the complete lines of a string and what follows
  the last newline.
\<close>

fun split_lines :: "string \<Rightarrow> string list \<times> string" where
  "split_lines [] = ([], [])"
| "split_lines (c # cs) =
     (let (ls, r) = split_lines cs in
      if c = newline then ([] # ls, r)
      else case ls of [] \<Rightarrow> ([], c # r) | l # ls' \<Rightarrow> ((c # l) # ls', r))"

text \<open>The rounds of \<open>process_read_buffer\<close>: the line given to the callback and the buffer left.\<close>

function rounds :: "string \<Rightarrow> (string \<times> string) list" where
  "rounds s =
     (case find_char newline s of
        None \<Rightarrow> []
      | Some p \<Rightarrow> (strip_cr (take p s), drop (p + 1) s) # rounds (drop (p + 1) s))"
  by pat_completeness auto
termination
  by (relation "measure length") (auto simp: find_char_Some)

declare rounds.simps [simp del]

lemma split_lines_append:
  "split_lines (a @ b) =
   (let (ls, r) = split_lines a; (ls', r') = split_lines (r @ b) in (ls @ ls', r'))"
  by (induction a) (auto simp: Let_def split: prod.splits list.splits)

lemma split_lines_no_newline: "newline \<notin> set s \<Longrightarrow> split_lines s = ([], s)"
  by (induction s) auto

lemma split_lines_line:
  "newline \<notin> set l \<Longrightarrow>
   split_lines (l @ newline # s) = (l # fst (split_lines s), snd (split_lines s))"
  by (induction l) (auto split: prod.splits)

lemma split_lines_find:
  assumes "find_char newline s = Some p"
  shows "split_lines s = (take p s # fst (split_lines (drop (p + 1) s)), snd (split_lines (drop (p + 1) s)))"
proof -
  from assms have p: "p < length s" "s ! p = newline" "newline \<notin> set (take p s)"
    by (auto simp: find_char_Some)
  then have "s = take p s @ newline # drop (p + 1) s"
    by (metis Suc_eq_plus1 id_take_nth_drop)
  with split_lines_line [OF p(3)] show ?thesis by metis
qed

lemma split_lines_unlines:
  "\<forall>l \<in> set ls. newline \<notin> set l \<Longrightarrow> newline \<notin> set r \<Longrightarrow>
   split_lines (concat (map (\<lambda>l. l @ [newline]) ls) @ r) = (ls, r)"
  by (induction ls) (auto simp: split_lines_line split_lines_no_newline)

lemma rounds_lines: "map fst (rounds s) = map strip_cr (fst (split_lines s))"
proof (induction s rule: rounds.induct)
  case (1 s)
  then show ?case
    by (cases "find_char newline s")
      (simp_all add: rounds.simps [of s] split_lines_find split_lines_no_newline)
qed

lemma rounds_rest: "snd (last ((l, s) # rounds s)) = snd (split_lines s)"
proof (induction s arbitrary: l rule: rounds.induct)
  case (1 s)
  show ?case
  proof (cases "find_char newline s")
    case None
    then show ?thesis by (simp add: rounds.simps [of s] split_lines_no_newline)
  next
    case (Some p)
    with 1 show ?thesis
      by (subst rounds.simps) (simp add: split_lines_find)
  qed
qed

section \<open>Delivery of the received lines\<close>

definition deliver ::
    "('z net_scheme) message_handler \<Rightarrow> nat \<Rightarrow> closure \<Rightarrow> (string \<times> string) list \<Rightarrow> ('z net_scheme, unit) M"
  where
  "deliver on_message a cb rs =
     mfor rs (\<lambda>(line, rest).
       mthen (update_conn a (\<lambda>c. c\<lparr>read_buffer := rest\<rparr>)) (on_message cb line))"

text \<open>
  What the code assumes of the callbacks it runs: a message handler leaves the connections and their
  unread input in place.
\<close>

locale line_receiver = local_invariant W
  for W :: "'z net_scheme \<Rightarrow> bool" +
  fixes on_message :: "('z net_scheme) message_handler"
  assumes message_invar: "invar (\<lambda>w. W w \<and> holds a k s w) (on_message cb line)"
begin

lemma message_keeps:
  assumes "W w" and "heap w a = Some c" and "a < next_addr w" and "on_message cb line w = (r, w')"
  shows "W w' \<and> a < next_addr w' \<and>
    (\<exists>c'. heap w' a = Some c' \<and> key_of c' = key_of c \<and> read_buffer c' = read_buffer c)"
proof -
  have "W w \<and> holds a (key_of c) (read_buffer c) w" using assms by (simp add: holds_def)
  from invarD [OF message_invar this assms(4)] show ?thesis by (auto simp: holds_def)
qed

lemma process_delivers:
  assumes "W w" and "heap w a = Some c" and "a < next_addr w" and "message_cb c = Some cb"
    and "length (read_buffer c) < fuel"
  shows "process_read_buffer on_message fuel a w
       = deliver on_message a cb (rounds (read_buffer c)) w"
  using assms
proof (induction fuel arbitrary: w c)
  case (Suc fuel)
  show ?case
  proof (cases "find_char newline (read_buffer c)")
    case None
    with Suc.prems show ?thesis
      by (simp add: rounds.simps [of "read_buffer c"] deliver_def)
  next
    case (Some p)
    let ?rest = "drop (p + 1) (read_buffer c)"
    let ?line = "strip_cr (take p (read_buffer c))"
    let ?c = "c\<lparr>read_buffer := ?rest\<rparr>"
    let ?w = "w\<lparr>heap := (heap w)(a \<mapsto> ?c)\<rparr>"
    have R: "rounds (read_buffer c) = (?line, ?rest) # rounds ?rest"
      using Some by (simp add: rounds.simps [of "read_buffer c"])
    have W1: "W ?w" using Suc.prems by (intro W_update) (auto simp: evolves_defs)
    obtain r w2 where m: "on_message cb ?line ?w = (r, w2)" by (cases "on_message cb ?line ?w")
    from message_keeps [OF W1 _ _ m, of a ?c] Suc.prems obtain c2 where
      c2: "W w2" "a < next_addr w2" "heap w2 a = Some c2" "key_of c2 = key_of ?c"
      "read_buffer c2 = ?rest"
      by auto
    then have b: "message_cb c2 = Some cb" "read_buffer c2 = ?rest"
      using Suc.prems(4) by (auto simp: key_of_def)
    have "p < length (read_buffer c)" using Some by (simp add: find_char_Some)
    then have l: "length (read_buffer c2) < fuel" using Suc.prems(5) b by simp
    show ?thesis
    proof (cases r)
      case (Inl e)
      with Suc.prems Some m show ?thesis by (simp add: R deliver_def Let_def)
    next
      case (Inr u)
      have "process_read_buffer on_message fuel a w2 = deliver on_message a cb (rounds ?rest) w2"
        using Suc.IH [OF c2(1,3,2) b(1) l] b(2) by simp
      with Suc.prems Some m Inr show ?thesis by (simp add: R deliver_def Let_def)
    qed
  qed
qed simp

lemma deliver_buffer:
  assumes "W w" and "heap w a = Some c" and "a < next_addr w"
    and "deliver on_message a cb rs w = (Inr u, w')"
  shows "W w' \<and> a < next_addr w' \<and> (\<exists>c'. heap w' a = Some c' \<and> key_of c' = key_of c \<and>
    read_buffer c' = snd (last (([], read_buffer c) # rs)))"
  using assms
proof (induction rs arbitrary: w c)
  case Nil
  then show ?case by (simp add: deliver_def)
next
  case (Cons x rs)
  obtain line rest where x: "x = (line, rest)" by (cases x)
  let ?c = "c\<lparr>read_buffer := rest\<rparr>"
  let ?w = "w\<lparr>heap := (heap w)(a \<mapsto> ?c)\<rparr>"
  have W1: "W ?w" using Cons.prems by (intro W_update) (auto simp: evolves_defs)
  obtain r w2 where m: "on_message cb line ?w = (r, w2)" by (cases "on_message cb line ?w")
  with Cons.prems x obtain v where r: "r = Inr v"
    by (cases r) (auto simp: deliver_def)
  from message_keeps [OF W1 _ _ m, of a ?c] Cons.prems obtain c2 where
    c2: "W w2" "a < next_addr w2" "heap w2 a = Some c2" "key_of c2 = key_of ?c"
    "read_buffer c2 = rest" by auto
  from Cons.prems(4) x m r Cons.prems(2) have "deliver on_message a cb rs w2 = (Inr u, w')"
    by (simp add: deliver_def)
  from Cons.IH [OF c2(1,3,2) this] c2(4,5) x show ?case
    by (cases rs) (auto simp: key_of_def)
qed

lemma receive_delivers:
  assumes "W w" and "heap w a = Some c" and "a < next_addr w" and "message_cb c = Some cb"
  shows "receive_bytes on_message a bytes w =
    mthen (deliver on_message a cb (rounds (read_buffer c @ bytes))) (mret (int (length bytes)))
      (w\<lparr>heap := (heap w)(a \<mapsto> c\<lparr>read_buffer := read_buffer c @ bytes\<rparr>)\<rparr>)"
proof -
  let ?c = "c\<lparr>read_buffer := read_buffer c @ bytes\<rparr>"
  let ?w = "w\<lparr>heap := (heap w)(a \<mapsto> ?c)\<rparr>"
  have "W ?w" using assms by (intro W_update) (auto simp: evolves_defs)
  from process_delivers [OF this, of a ?c cb "Suc (length (read_buffer ?c))"] assms
  show ?thesis
    by (simp add: receive_bytes_def mthen_def mbind_def del: process_read_buffer.simps)
qed

end

section \<open>Sending\<close>

text \<open>What OpenSSL or the kernel answers to the write of a line.\<close>

definition write_answer ::
    "env \<Rightarrow> 'z net_scheme \<Rightarrow> nat \<Rightarrow> connection \<Rightarrow> impl \<Rightarrow> string \<Rightarrow> int \<times> ssl_error" where
  "write_answer E w a c i line =
     (if ssl i then ssl_write E (ticks w) a (line @ [newline])
      else (sys_write E (ticks w) (fd c) (line @ [newline]), Ssl_other 0))"

lemma send_line_refused:
  "heap w a = Some c \<Longrightarrow> pimpl c = Some i \<Longrightarrow> \<not> is_connected c \<Longrightarrow> \<not> tls_handshake_complete i \<Longrightarrow>
   send_line E a line w = (Inr False, w)"
  by (simp add: send_line_def)

lemma send_line_apply:
  assumes "heap w a = Some c" and "pimpl c = Some i" and "is_connected c \<or> tls_handshake_complete i"
    and "write_answer E w a c i line = (sent, err)"
  shows "send_line E a line w =
    (if sent \<le> 0
     then if ssl i \<and> (err = Ssl_want_write \<or> err = Ssl_want_read)
          then (Inr True, w\<lparr>ticks := Suc (ticks w)\<rparr>)
          else (Inr False, w\<lparr>ticks := Suc (ticks w),
                             heap := (heap w)(a \<mapsto> c\<lparr>should_close := True\<rparr>)\<rparr>)
     else (Inr (nat sent = Suc (length line)),
           w\<lparr>ticks := Suc (ticks w),
             effects := effects w @ [Sent (fd c) (take (nat sent) (line @ [newline]))]\<rparr>))"
  using assms
  by (cases "ssl i")
    (auto simp: send_line_def Let_def mthen_def write_answer_def mark_for_closing_def)

text \<open>A connection that is up and whose peer takes every line whole.\<close>

definition takes_lines :: "env \<Rightarrow> 'z net_scheme \<Rightarrow> nat \<Rightarrow> bool" where
  "takes_lines E w a \<longleftrightarrow> (\<exists>c i. heap w a = Some c \<and> pimpl c = Some i \<and>
     (is_connected c \<or> tls_handshake_complete i) \<and>
     (\<forall>n l. (if ssl i then fst (ssl_write E n a l) else sys_write E n (fd c) l) = int (length l)))"

lemma takes_lines_heap: "heap w' = heap w \<Longrightarrow> takes_lines E w' a \<longleftrightarrow> takes_lines E w a"
  by (simp add: takes_lines_def)

lemma send_line_taken:
  assumes "takes_lines E w a" and "heap w a = Some c"
  shows "send_line E a line w = (Inr True, w\<lparr>ticks := Suc (ticks w),
     effects := effects w @ [Sent (fd c) (line @ [newline])]\<rparr>)"
proof -
  obtain i where i: "pimpl c = Some i" "is_connected c \<or> tls_handshake_complete i"
    "\<And>n l. (if ssl i then fst (ssl_write E n a l) else sys_write E n (fd c) l) = int (length l)"
    using assms unfolding takes_lines_def by auto
  obtain sent err where s: "write_answer E w a c i line = (sent, err)"
    by (cases "write_answer E w a c i line")
  have "fst (write_answer E w a c i line) = int (length (line @ [newline]))"
    using i(3) [of "ticks w" "line @ [newline]"] by (simp add: write_answer_def split: if_splits)
  with s have "sent = int (Suc (length line))" by simp
  with send_line_apply [OF assms(2) i(1,2) s] show ?thesis by (simp add: nat_add_distrib)
qed

lemma only_fails_send_line [safe]: "only_fails {Undefined} (send_line E a line)"
  unfolding send_line_def Let_def mark_for_closing_def by (auto intro!: safe split: prod.splits)

lemma send_line_never_raises: "heap w a = Some c \<Longrightarrow> pimpl c = Some i \<Longrightarrow> \<exists>b w'. send_line E a line w = (Inr b, w')"
  by (cases "is_connected c \<or> tls_handshake_complete i"; cases "write_answer E w a c i line")
    (auto simp: send_line_apply send_line_refused)

lemma keeps_send_line [frame]:
  "keeps net.more (send_line E a line)" "keeps open_fds (send_line E a line)"
  "keeps next_addr (send_line E a line)"
  unfolding send_line_def Let_def mark_for_closing_def
  by (auto intro!: frame split: prod.splits)

section \<open>The handshake\<close>

definition handshake_done :: "impl \<Rightarrow> impl" where
  "handshake_done i = i\<lparr>ssl_fd_attached := True, tls_handshake_complete := True,
     tls_want_read := False, tls_want_write := False\<rparr>"

lemma handshake_step_apply:
  assumes "heap w a = Some c" and "pimpl c = Some i" and "ssl_connect E (ticks w) a = (ret, err)"
  shows "handshake_step E on_state a w =
   (let i' = i\<lparr>tls_want_read := False, tls_want_write := False\<rparr>;
        w' = \<lambda>i''. w\<lparr>ticks := Suc (ticks w), heap := (heap w)(a \<mapsto> c\<lparr>pimpl := Some i''\<rparr>)\<rparr> in
    if ret = 1
    then mthen (set_state on_state a CONNECTED) (mret True) 
           (w' (i\<lparr>tls_handshake_complete := True, tls_want_read := False, tls_want_write := False\<rparr>))
    else if err = Ssl_want_read then (Inr False, w' (i'\<lparr>tls_want_read := True\<rparr>))
    else if err = Ssl_want_write then (Inr False, w' (i'\<lparr>tls_want_write := True\<rparr>))
    else mthen (set_state on_state a ERROR) (mthen (mark_for_closing a) (mret False))
           (w\<lparr>heap := (heap w)(a \<mapsto> c\<lparr>pimpl := Some i'\<rparr>), ticks := Suc (ticks w)\<rparr>))"
  using assms
  by (auto simp: handshake_step_def Let_def mthen_def)

lemma perform_tls_handshake_done:
  "heap w a = Some c \<Longrightarrow> pimpl c = Some i \<Longrightarrow> \<not> tls_handshake_pending i \<Longrightarrow>
   perform_tls_handshake E on_state a w = (Inr (tls_handshake_complete i), w)"
  by (auto simp: perform_tls_handshake_def tls_handshake_pending_def)

lemma perform_tls_handshake_attached:
  "heap w a = Some c \<Longrightarrow> pimpl c = Some i \<Longrightarrow> tls_handshake_pending i \<Longrightarrow> ssl_fd_attached i \<Longrightarrow>
   perform_tls_handshake E on_state a w = handshake_step E on_state a w"
  by (simp add: perform_tls_handshake_def tls_handshake_pending_def)

lemma perform_tls_handshake_first:
  assumes "heap w a = Some c" and "pimpl c = Some i" and "tls_handshake_pending i"
    and "\<not> ssl_fd_attached i" and "ssl_set_fd E (ticks w) (fd c) \<noteq> 0"
  shows "perform_tls_handshake E on_state a w =
    handshake_step E on_state a
      (w\<lparr>ticks := Suc (ticks w), heap := (heap w)(a \<mapsto> c\<lparr>pimpl := Some (i\<lparr>ssl_fd_attached := True\<rparr>)\<rparr>)\<rparr>)"
  using assms
  by (simp add: perform_tls_handshake_def tls_handshake_pending_def mthen_def)

section \<open>The callbacks of a connection under construction\<close>

lemma setup_tls_handler:
  assumes "heap w a = Some c" and "state_cb c = None" and "pimpl c = Some i"
  shows "setup_tls E h a host w = setup_tls E h' a host w"
proof -
  let ?i = "i\<lparr>sni_hostname := host\<rparr>"
  let ?w1 = "w\<lparr>heap := (heap w)(a \<mapsto> c\<lparr>pimpl := Some ?i\<rparr>)\<rparr>"
  have 1: "create_ssl_context E a ?w1 =
    (let new = ssl_ctx_new E (ticks w); ok = new \<and> cipher_list_ok E (Suc (ticks w)) in
     (Inr ok, w\<lparr>heap := (heap w)(a \<mapsto> c\<lparr>pimpl := Some (?i\<lparr>ctx := ok\<rparr>)\<rparr>),
                ticks := (if new then Suc (Suc (ticks w)) else Suc (ticks w))\<rparr>))"
    using create_ssl_context_apply [of ?w1 a "c\<lparr>pimpl := Some ?i\<rparr>" ?i E] by (simp add: Let_def)
  show ?thesis
    using assms by (simp add: setup_tls_def mthen_def 1 Let_def set_state_silent)
qed

lemma connect_to_pool_handler:
  "connect_to_pool E h host port name
   = (connect_to_pool E h' host port name :: ('z net_scheme, nat option) M)"
proof -
  have "mbind (new_connection E h f POOL name) (\<lambda>a. mbind (setup_tls E h a host) (g a)) =
        mbind (new_connection E h' f POOL name) (\<lambda>a. mbind (setup_tls E h' a host) (g a))"
    for f and g :: "nat \<Rightarrow> bool \<Rightarrow> ('z net_scheme, nat option) M"
  proof
    fix w :: "'z net_scheme"
    let ?w = "w\<lparr>heap := (heap w)(next_addr w \<mapsto> fresh_connection f POOL name),
        next_addr := Suc (next_addr w), ticks := Suc (ticks w)\<rparr>"
    have "setup_tls E h (next_addr w) host ?w = setup_tls E h' (next_addr w) host ?w"
      by (rule setup_tls_handler [of _ _ "fresh_connection f POOL name" fresh_impl])
        (simp_all add: fresh_connection_def)
    then show "mbind (new_connection E h f POOL name) (\<lambda>a. mbind (setup_tls E h a host) (g a)) w =
        mbind (new_connection E h' f POOL name) (\<lambda>a. mbind (setup_tls E h' a host) (g a)) w"
      by (simp add: new_connection_apply mbind_def)
  qed
  note eq = this
  show ?thesis unfolding connect_to_pool_def eq by (rule refl)
qed

section \<open>Invariants through the operations of a connection\<close>

locale event_handlers = line_receiver W on_message
  for W :: "'z net_scheme \<Rightarrow> bool" and on_message :: "('z net_scheme) message_handler" +
  fixes on_state :: "('z net_scheme) state_handler"
  assumes state_invar: "invar (\<lambda>w. W w \<and> holds a k s w) (on_state cb st)"
begin

lemma set_state_invar: "invar (\<lambda>w. W w \<and> holds a k s w) (set_state on_state b st)"
  unfolding set_state_def
  by (intro frame both_prims both_update state_invar) (auto simp: evolves_defs)

lemma mark_invar: "invar (\<lambda>w. W w \<and> holds a k s w) (mark_for_closing b)"
  unfolding mark_for_closing_def by (intro both_update) (auto simp: evolves_defs)

lemma handshake_step_invar: "invar (\<lambda>w. W w \<and> holds a k s w) (handshake_step E on_state b)"
  unfolding handshake_step_def
  by (intro frame both_prims set_state_invar mark_invar) (auto intro!: frame both_prims set_state_invar mark_invar)

lemma handshake_invar: "invar (\<lambda>w. W w \<and> holds a k s w) (perform_tls_handshake E on_state b)"
  unfolding perform_tls_handshake_def
  by (intro frame both_prims set_state_invar mark_invar handshake_step_invar)

lemma send_line_invar: "invar (\<lambda>w. W w \<and> holds a k s w) (send_line E b line)"
  unfolding send_line_def Let_def
  by (auto intro!: frame both_prims mark_invar split: prod.splits)

lemma message_live: "invar (\<lambda>w. W w \<and> live a k w) (on_message cb line)"
  by (intro invar_live message_invar)

lemma live_prims [frame]:
  "invar (\<lambda>w. W w \<and> live a k w) (ask f)" "invar (\<lambda>w. W w \<and> live a k w) (deref b)"
  "invar (\<lambda>w. W w \<and> live a k w) (impl_of b)" "invar (\<lambda>w. W w \<and> live a k w) (mark_for_closing b)"
  by (intro invar_live both_prims mark_invar)+

lemma process_invar: "invar (\<lambda>w. W w \<and> live a k w) (process_read_buffer on_message fuel b)"
proof (induction fuel)
  case 0
  show ?case unfolding process_read_buffer.simps by (rule frame)
next
  case (Suc n)
  show ?case
    unfolding process_read_buffer.simps Let_def
    by (intro frame live_prims message_live both_live_update Suc.IH) (simp add: evolves_defs)
qed

lemma receive_invar: "invar (\<lambda>w. W w \<and> live a k w) (receive_bytes on_message b bytes)"
  unfolding receive_bytes_def
  by (intro frame live_prims both_live_update process_invar) (simp add: evolves_defs)

lemma read_data_invar: "invar (\<lambda>w. W w \<and> live a k w) (read_data E on_message b)"
  unfolding read_data_def
  by (auto intro!: frame live_prims receive_invar split: prod.splits read_result.splits)

end

section \<open>A world with one connection\<close>

text \<open>The instance of the statements below: one accepted worker on descriptor 5.\<close>

definition demo_conn :: connection where
  "demo_conn = fresh_connection 5 WORKER ''worker:10.0.0.7:4000''"

definition demo_net :: net where
  "demo_net = \<lparr>heap = [0 \<mapsto> demo_conn], next_addr = 1, open_fds = [5, 0, 1, 2], ticks = 0, effects = []\<rparr>"

lemma demo_conn_fields [simp]:
  "pimpl demo_conn = Some fresh_impl" "fd demo_conn = 5" "state demo_conn = CONNECTED"
  "state_cb demo_conn = None" "message_cb demo_conn = None" "read_buffer demo_conn = []"
  "ctype demo_conn = WORKER" "\<not> should_close demo_conn"
  by (simp_all add: demo_conn_def fresh_connection_def)

lemma fresh_impl_fields [simp]:
  "\<not> ssl fresh_impl" "\<not> ctx fresh_impl" "\<not> tls_handshake_complete fresh_impl"
  "\<not> ssl_fd_attached fresh_impl"
  by (simp_all add: fresh_impl_def)

lemma demo_net_fields [simp]:
  "heap demo_net 0 = Some demo_conn" "next_addr demo_net = 1" "open_fds demo_net = [5, 0, 1, 2]"
  "ticks demo_net = 0" "effects demo_net = []" "1 \<le> b \<Longrightarrow> heap demo_net b = None"
  by (simp_all add: demo_net_def)

lemma demo_connected [simp]: "is_connected demo_conn"
  by (simp add: is_connected_def less_eq_connection_state_def)

section \<open>States\<close>

text \<open>\<open>is_connected\<close> compares the order of the enumerators, so a connection whose
  TLS handshake or setup failed, in state \<open>ERROR\<close>, counts as connected too.\<close>

theorem connected_states:
  "is_connected c \<longleftrightarrow> state c = CONNECTED \<or> state c = AUTHENTICATED \<or> state c = ERROR"
  by (cases "state c") (simp_all add: is_connected_def less_eq_connection_state_def)

text \<open>\<open>set_state\<close> changes the state of its object and nothing else, and runs the state
  callback, once, exactly when one is installed and the state really changes.\<close>

theorem set_state_notifies:
  assumes "heap w a = Some c"
  shows "set_state on_state a s w =
    (if state c = s then (Inr (), w)
     else case state_cb c of
       None \<Rightarrow> (Inr (), w\<lparr>heap := (heap w)(a \<mapsto> c\<lparr>state := s\<rparr>)\<rparr>)
     | Some cb \<Rightarrow> on_state cb s (w\<lparr>heap := (heap w)(a \<mapsto> c\<lparr>state := s\<rparr>)\<rparr>))"
  using assms set_state_same [OF assms] set_state_silent [OF assms] set_state_calls [OF assms]
  by (auto split: option.split)

theorem set_state_notifies_witness:
  "set_state (\<lambda>cb s. mfail Undefined) 0 ERROR demo_net =
     (Inr (), demo_net\<lparr>heap := (heap demo_net)(0 \<mapsto> demo_conn\<lparr>state := ERROR\<rparr>)\<rparr>)"
  using set_state_notifies [of demo_net 0 demo_conn "\<lambda>cb s. mfail Undefined" ERROR] by simp

section \<open>Sending a line\<close>

text \<open>Every outcome of \<open>send_line\<close>.  Before the connection is up nothing is written.
  Otherwise the line and its newline are offered once: a failed write marks the connection, except
  that OpenSSL's requests to retry count as success though nothing was taken and nothing is kept for
  a retry; a partial write reports failure and its rest is not sent; no other object is touched.\<close>

theorem send_line_outcome:
  assumes "heap w a = Some c" and "pimpl c = Some i"
    and "write_answer E w a c i line = (sent, err)"
  shows "send_line E a line w =
    (if \<not> is_connected c \<and> \<not> tls_handshake_complete i then (Inr False, w)
     else if 0 < sent then
       (Inr (nat sent = Suc (length line)),
        w\<lparr>ticks := Suc (ticks w),
          effects := effects w @ [Sent (fd c) (take (nat sent) (line @ [newline]))]\<rparr>)
     else if ssl i \<and> (err = Ssl_want_write \<or> err = Ssl_want_read) then
       (Inr True, w\<lparr>ticks := Suc (ticks w)\<rparr>)
     else
       (Inr False, w\<lparr>ticks := Suc (ticks w), heap := (heap w)(a \<mapsto> c\<lparr>should_close := True\<rparr>)\<rparr>))"
proof (cases "is_connected c \<or> tls_handshake_complete i")
  case True
  with send_line_apply [OF assms(1,2) True assms(3)] show ?thesis by auto
next
  case False
  with send_line_refused [OF assms(1,2)] show ?thesis by simp
qed

theorem send_line_outcome_witness:
  "send_line calm_env 0 ''hi'' demo_net =
    (Inr True, demo_net\<lparr>ticks := 1, effects := [Sent 5 (''hi'' @ [newline])]\<rparr>)"
  using send_line_outcome [of demo_net 0 demo_conn fresh_impl calm_env "''hi''" 3 "Ssl_other 0"]
  by (simp add: write_answer_def)

section \<open>The handshake\<close>

text \<open>One step of a pending TLS handshake on an attached socket.  It counts as complete
  exactly when \<open>SSL_connect\<close> returns 1, and then the connection becomes \<open>CONNECTED\<close>; a request to
  wait is recorded in exactly one of the two flags; any other answer ends in state \<open>ERROR\<close> with the
  connection marked.  (Stated for a connection whose state callback is not set.)\<close>

theorem handshake_outcome:
  assumes "heap w a = Some c" and "pimpl c = Some i" and "tls_handshake_pending i"
    and "ssl_fd_attached i" and "state_cb c = None" and "ssl_connect E (ticks w) a = (ret, err)"
  shows "\<exists>w' c' j. continue_tls_handshake E on_state a w = (Inr (ret = 1), w') \<and>
    heap w' = (heap w)(a \<mapsto> c') \<and> pimpl c' = Some j \<and>
    (tls_handshake_complete j \<longleftrightarrow> ret = 1) \<and>
    (tls_want_read j \<longleftrightarrow> ret \<noteq> 1 \<and> err = Ssl_want_read) \<and>
    (tls_want_write j \<longleftrightarrow> ret \<noteq> 1 \<and> err = Ssl_want_write) \<and>
    state c' = (if ret = 1 then CONNECTED
                else if err = Ssl_want_read \<or> err = Ssl_want_write then state c else ERROR) \<and>
    (should_close c' \<longleftrightarrow> should_close c \<or> ret \<noteq> 1 \<and> err \<noteq> Ssl_want_read \<and> err \<noteq> Ssl_want_write)"
proof -
  have p: "\<not> tls_handshake_complete i" using assms(3) by (simp add: tls_handshake_pending_def)
  show ?thesis
    using perform_tls_handshake_attached [OF assms(1-4), of E on_state]
      handshake_step_apply [OF assms(1,2,6), of on_state] assms(5) p
    by (auto simp: continue_tls_handshake_def Let_def set_state_silent mthen_def)
qed

definition tls_conn :: connection where
  "tls_conn = (outgoing 5 ''h'' ''pool:p'')\<lparr>pimpl := Some (fresh_impl\<lparr>ssl := True, ctx := True,
     ssl_fd_attached := True\<rparr>)\<rparr>"

theorem handshake_outcome_witness:
  "\<exists>w' c' j. continue_tls_handshake calm_env (\<lambda>cb s. mret ()) 0 (demo_net\<lparr>heap := [0 \<mapsto> tls_conn]\<rparr>) = (Inr True, w') \<and>
    heap w' 0 = Some c' \<and> pimpl c' = Some j \<and> tls_handshake_complete j \<and> state c' = CONNECTED"
proof -
  let ?i = "fresh_impl\<lparr>ssl := True, ctx := True, ssl_fd_attached := True\<rparr>"
  have "pimpl tls_conn = Some ?i" "state_cb tls_conn = None"
    by (simp_all add: tls_conn_def outgoing_def fresh_connection_def)
  from handshake_outcome [OF _ this(1) _ _ this(2), of "demo_net\<lparr>heap := [0 \<mapsto> tls_conn]\<rparr>" 0 calm_env 1 "Ssl_other 0" "\<lambda>cb s. mret ()"]
  show ?thesis by (auto simp: tls_handshake_pending_def calm_env_def)
qed

section \<open>The life of an object\<close>

text \<open>Property C32: \<open>connect_to_pool\<close> either returns null and leaves the heap and the open descriptors
  as they were, or returns one new object, connecting, with TLS prepared for the host and no
  callbacks, on one new descriptor: it leaks nothing on any of its error paths.\<close>

theorem connect_to_pool_no_leak:
  assumes "environment E" and "\<forall>b \<ge> next_addr w. heap w b = None"
  shows "\<exists>r w'. connect_to_pool E on_state host port name w = (Inr r, w') \<and>
    (case r of
       None \<Rightarrow> heap w' = heap w \<and> open_fds w' = open_fds w
     | Some a \<Rightarrow> \<exists>f. 0 \<le> f \<and> f \<notin> set (open_fds w) \<and> open_fds w' = f # open_fds w \<and>
         heap w a = None \<and> heap w' = (heap w)(a \<mapsto> outgoing f host name))"
  using assms by (cases rule: connect_to_pool_cases [where on_state = on_state and host = host
        and port = port and name = name]) (auto simp: assms(2))

theorem connect_to_pool_no_leak_witness:
  "\<exists>r w'. connect_to_pool (calm_env\<lparr>ssl_new := \<lambda>n. False\<rparr>) (\<lambda>cb s. mret ()) ''h'' 3333 ''p'' demo_net = (Inr r, w') \<and>
    (case r of
       None \<Rightarrow> heap w' = heap demo_net \<and> open_fds w' = open_fds demo_net
     | Some a \<Rightarrow> \<exists>f. 0 \<le> f \<and> f \<notin> set (open_fds demo_net) \<and> open_fds w' = f # open_fds demo_net \<and>
         heap demo_net a = None \<and> heap w' = (heap demo_net)(a \<mapsto> outgoing f ''h'' ''p''))"
  by (rule connect_to_pool_no_leak [OF environment_cong [OF calm.environment_axioms]]) simp_all

text \<open>Moving a connection gives the new object everything the old one had, and leaves
  the old one without its \<open>pimpl\<close>: its destructor, which reads \<open>pimpl_->ssl\<close> unconditionally, is then
  undefined behaviour.\<close>

theorem moved_from_cannot_be_destroyed:
  assumes "heap w a = Some c" and "a \<noteq> next_addr w"
  shows "\<exists>w'. move_connection a w = (Inr (next_addr w), w') \<and> heap w' (next_addr w) = Some c \<and>
    fst (delete_connection a w') = Inl Undefined"
proof -
  let ?w = "w\<lparr>heap := (heap w)(next_addr w \<mapsto> c, a \<mapsto> moved_from c), next_addr := Suc (next_addr w)\<rparr>"
  have "move_connection a w = (Inr (next_addr w), ?w)"
    using assms by (simp add: move_connection_def alloc_def mthen_def mbind_def)
  moreover have "fst (delete_connection a ?w) = Inl Undefined"
    using delete_connection_moved [of ?w a "moved_from c"] by (simp add: moved_from_def)
  ultimately show ?thesis using assms(2) by auto
qed

theorem moved_from_cannot_be_destroyed_witness:
  "\<exists>w'. move_connection 0 demo_net = (Inr 1, w') \<and> heap w' 1 = Some demo_conn \<and>
    fst (delete_connection 0 w') = Inl Undefined"
  using moved_from_cannot_be_destroyed [of demo_net 0 demo_conn] by simp

section \<open>Receiving\<close>

text \<open>What \<open>read_data\<close> makes of an answer of the socket that brings no bytes: only
  \<open>EAGAIN\<close> leaves a plain connection alone; any other error, and the end of the stream, mark it for
  closing and return -1, without running a callback.\<close>

theorem read_data_without_bytes:
  assumes "heap w a = Some c" and "pimpl c = Some i" and "\<not> ssl i"
    and "sys_read E (ticks w) (fd c) (buffer_size - 1) = r" and "\<forall>bs. r = Read_bytes bs \<longrightarrow> bs = []"
  shows "read_data E on_message a w =
    (if r = Read_error Eagain then (Inr 0, w\<lparr>ticks := Suc (ticks w)\<rparr>)
     else (Inr (-1), w\<lparr>ticks := Suc (ticks w), heap := (heap w)(a \<mapsto> c\<lparr>should_close := True\<rparr>)\<rparr>))"
  using assms
  by (cases r) (auto simp: read_data_def tls_handshake_pending_def mthen_def)

theorem read_data_without_bytes_witness:
  "read_data (calm_env\<lparr>sys_read := \<lambda>n f k. Read_eof\<rparr>) (\<lambda>cb l. mret ()) 0 demo_net =
    (Inr (-1), demo_net\<lparr>ticks := 1, heap := (heap demo_net)(0 \<mapsto> demo_conn\<lparr>should_close := True\<rparr>)\<rparr>)"
  using read_data_without_bytes [of demo_net 0 demo_conn fresh_impl "calm_env\<lparr>sys_read := \<lambda>n f k. Read_eof\<rparr>" Read_eof "\<lambda>cb l. mret ()"]
  by simp

section \<open>From one connection to another\<close>

text \<open>A handler that records the lines it gets.\<close>

definition record_line :: "('z net_scheme) message_handler" where
  "record_line = (\<lambda>cb line. emit (Printed line))"

interpretation recording: line_receiver "\<lambda>_. True" record_line
  by unfold_locales (auto simp: record_line_def intro: frame invar_conj)

lemma deliver_recording:
  assumes "heap v b = Some d"
  shows "\<exists>v'. deliver record_line b cb rs v = (Inr (), v') \<and> next_addr v' = next_addr v \<and>
    effects v' = effects v @ map (\<lambda>x. Printed (fst x)) rs \<and>
    heap v' b = Some (d\<lparr>read_buffer := snd (last (([], read_buffer d) # rs))\<rparr>)"
  using assms
proof (induction rs arbitrary: v d)
  case Nil
  then show ?case by (simp add: deliver_def)
next
  case (Cons x rs)
  obtain line rest where x: "x = (line, rest)" by (cases x)
  let ?d = "d\<lparr>read_buffer := rest\<rparr>"
  let ?v = "v\<lparr>heap := (heap v)(b \<mapsto> ?d), effects := effects v @ [Printed line]\<rparr>"
  have s: "deliver record_line b cb (x # rs) v = deliver record_line b cb rs ?v"
    using Cons.prems x by (simp add: deliver_def record_line_def mthen_def mbind_def)
  have "heap ?v b = Some ?d" by simp
  from Cons.IH [OF this] s x show ?case by (cases rs) auto
qed

lemma receive_recording:
  assumes "heap v b = Some d" and "b < next_addr v" and "message_cb d = Some cb"
  shows "\<exists>v'. receive_bytes record_line b s v = (Inr (int (length s)), v') \<and> next_addr v' = next_addr v \<and>
    effects v' = effects v @ map Printed (map strip_cr (fst (split_lines (read_buffer d @ s)))) \<and>
    heap v' b = Some (d\<lparr>read_buffer := snd (split_lines (read_buffer d @ s))\<rparr>)"
proof -
  let ?d = "d\<lparr>read_buffer := read_buffer d @ s\<rparr>" and ?rs = "rounds (read_buffer d @ s)"
  let ?v = "v\<lparr>heap := (heap v)(b \<mapsto> ?d)\<rparr>"
  have "heap ?v b = Some ?d" by simp
  from deliver_recording [OF this, of cb ?rs] obtain v' where
    "deliver record_line b cb ?rs ?v = (Inr (), v')" "next_addr v' = next_addr v"
    "effects v' = effects v @ map (\<lambda>x. Printed (fst x)) ?rs"
    "heap v' b = Some (?d\<lparr>read_buffer := snd (last (([], read_buffer d @ s) # ?rs))\<rparr>)" by auto
  moreover have "map (\<lambda>x. Printed (fst x)) ?rs = map Printed (map strip_cr (fst (split_lines (read_buffer d @ s))))"
    using arg_cong [OF rounds_lines, of "map Printed" "read_buffer d @ s"]
    by (simp add: comp_def)
  ultimately show ?thesis
    using recording.receive_delivers [OF TrueI assms, of s] rounds_rest [of "[]" "read_buffer d @ s"]
    by (simp add: mthen_def)
qed

lemma split_lines_rest: "newline \<notin> set (snd (split_lines s))"
  by (induction s) (auto split: prod.splits list.splits)

lemma stream_recording:
  assumes "heap v b = Some d" and "b < next_addr v" and "message_cb d = Some cb"
    and "newline \<notin> set (read_buffer d)"
  shows "\<exists>v'. mfor chunks (\<lambda>s. mbind (receive_bytes record_line b s) (\<lambda>_. mret ())) v = (Inr (), v') \<and>
    effects v' = effects v @ map Printed (map strip_cr (fst (split_lines (read_buffer d @ concat chunks)))) \<and>
    heap v' b = Some (d\<lparr>read_buffer := snd (split_lines (read_buffer d @ concat chunks))\<rparr>)"
  using assms
proof (induction chunks arbitrary: v d)
  case Nil
  then show ?case by (simp add: split_lines_no_newline)
next
  case (Cons s chunks)
  let ?r = "split_lines (read_buffer d @ s)"
  let ?d = "d\<lparr>read_buffer := snd ?r\<rparr>"
  from receive_recording [OF Cons.prems(1-3), of s] obtain v1 where
    v1: "receive_bytes record_line b s v = (Inr (int (length s)), v1)" "next_addr v1 = next_addr v"
    "effects v1 = effects v @ map Printed (map strip_cr (fst ?r))" "heap v1 b = Some ?d" by blast
  have "newline \<notin> set (read_buffer ?d)" using split_lines_rest [of "read_buffer d @ s"] by simp
  from Cons.IH [OF v1(4) _ _ this] Cons.prems(2,3) v1 show ?case
    using split_lines_append [of "read_buffer d @ s" "concat chunks"]
    by (auto simp: Let_def mthen_def mbind_def split: prod.splits)
qed

lemma send_stream:
  assumes "takes_lines E w a" and "heap w a = Some c"
  shows "\<exists>n. mfor ls (\<lambda>l. mbind (send_line E a l) (\<lambda>_. mret ())) w =
    (Inr (), w\<lparr>ticks := n, effects := effects w @ map (\<lambda>l. Sent (fd c) (l @ [newline])) ls\<rparr>)"
  using assms
proof (induction ls arbitrary: w)
  case Nil
  have "w = w\<lparr>ticks := ticks w, effects := effects w\<rparr>" by simp
  then show ?case by (intro exI [of _ "ticks w"]) simp
next
  case (Cons l ls)
  let ?w = "w\<lparr>ticks := Suc (ticks w), effects := effects w @ [Sent (fd c) (l @ [newline])]\<rparr>"
  have "takes_lines E ?w a" "heap ?w a = Some c"
    using Cons.prems takes_lines_heap [of ?w w E a] by simp_all
  from Cons.IH [OF this] send_line_taken [OF Cons.prems, of l] show ?case
    by (auto simp: mthen_def mbind_def)
qed



end
