(* ===== verification/Event_Loop.thy ===== *)
theory Event_Loop
  imports Connection
begin

unbundle bit_operations_syntax

text \<open>
  The event loop: \<open>src/gpu-proxy-cpp/src/event_loop.hpp\<close> and \<open>event_loop.cpp\<close>.  It owns the
  connections, keyed by descriptor, polls them, dispatches the events, frees the connections that ask
  for it, and runs the timers.
\<close>

section \<open>State\<close>

text \<open>The two closures installed as timers: \<open>accept_worker()\<close> and \<open>try_connect_pool(...)\<close>.\<close>

datatype timer = Accept_timer | Reconnect_timer

record timeout =
  next_fire_ms :: "64 word"
  interval_ms :: "64 word"
  callback :: timer
  recurring :: bool

record loop = net +
  connections :: "(int \<times> nat) list"
  timeouts :: "timeout list"
  running :: bool

section \<open>The table of connections\<close>

text \<open>Assigning to an occupied slot destroys the connection that was there.\<close>

definition add_connection :: "nat \<Rightarrow> ('z loop_scheme, unit) M" where
  "add_connection a =
     mbind (deref a) (\<lambda>c.
     mbind (mget connections) (\<lambda>cs.
     mthen (mmodify (\<lambda>w. w\<lparr>connections := AList.update (fd c) a cs\<rparr>))
           (case map_of cs (fd c) of None \<Rightarrow> mret () | Some old \<Rightarrow> delete_connection old)))"

definition erase_connection :: "int \<Rightarrow> nat \<Rightarrow> ('z loop_scheme, unit) M" where
  "erase_connection f a =
     mthen (mmodify (\<lambda>w. w\<lparr>connections := AList.delete f (connections w)\<rparr>)) (delete_connection a)"

definition remove_connection :: "int \<Rightarrow> ('z loop_scheme, unit) M" where
  "remove_connection f =
     mbind (mget connections) (\<lambda>cs.
     case map_of cs f of None \<Rightarrow> mret () | Some a \<Rightarrow> erase_connection f a)"

definition get_connection :: "int \<Rightarrow> ('z loop_scheme, nat option) M" where
  "get_connection f = mget (\<lambda>w. map_of (connections w) f)"

text \<open>Iteration over \<open>connections_\<close>: the keys in the order of the hash table.\<close>

definition connection_keys :: "env \<Rightarrow> ('z loop_scheme, int list) M" where
  "connection_keys E = mbind (mget connections) (\<lambda>cs. ask (\<lambda>n. hash_order E n (map fst cs)))"

definition connection_at :: "int \<Rightarrow> ('z loop_scheme, nat) M" where
  "connection_at f = mbind (mget connections) (\<lambda>cs.
     case map_of cs f of None \<Rightarrow> mfail Undefined | Some a \<Rightarrow> mret a)"

section \<open>Time\<close>

definition now_ms :: "env \<Rightarrow> ('z net_scheme, 64 word) M" where
  "now_ms E = mbind (ask (\<lambda>n. sys_clock E n)) (\<lambda>(sec, nsec). mret (sec * 1000 + nsec div 1000000))"

definition set_timeout :: "env \<Rightarrow> 64 word \<Rightarrow> timer \<Rightarrow> bool \<Rightarrow> ('z loop_scheme, unit) M" where
  "set_timeout E interval cb rec =
     mbind (now_ms E) (\<lambda>now.
     mmodify (\<lambda>w. w\<lparr>timeouts := timeouts w @
       [\<lparr>next_fire_ms = now + interval, interval_ms = interval, callback = cb, recurring = rec\<rparr>]\<rparr>))"

section \<open>Events\<close>

definition handle_read_event ::
    "env \<Rightarrow> ('z loop_scheme) message_handler \<Rightarrow> ('z loop_scheme) state_handler \<Rightarrow> nat \<Rightarrow>
     ('z loop_scheme, unit) M" where
  "handle_read_event E on_message on_state a =
     mbind (impl_of a) (\<lambda>i.
     if tls_handshake_pending i
     then mbind (continue_tls_handshake E on_state a) (\<lambda>complete.
          mwhen complete
            (mbind (read_data E on_message a) (\<lambda>r. mwhen (r < 0) (mark_for_closing a))))
     else mbind (read_data E on_message a) (\<lambda>r. mwhen (r < 0) (mark_for_closing a)))"

text \<open>The table of descriptors whose connection was already reported only guards a diagnostic.\<close>

definition finish_connect ::
    "env \<Rightarrow> ('z loop_scheme) state_handler \<Rightarrow> nat \<Rightarrow> ('z loop_scheme, unit) M" where
  "finish_connect E on_state a =
     mbind (deref a) (\<lambda>c.
     mwhen (state c = CONNECTING)
       (mbind (ask (\<lambda>n. sys_so_error E n (fd c))) (\<lambda>(r, error).
        mwhen (r = 0)
          (if error = 0
           then mwhen (ctype c = WORKER) (set_state on_state a CONNECTED)
           else mark_for_closing a))))"

definition handle_write_event ::
    "env \<Rightarrow> ('z loop_scheme) message_handler \<Rightarrow> ('z loop_scheme) state_handler \<Rightarrow> nat \<Rightarrow>
     ('z loop_scheme, unit) M" where
  "handle_write_event E on_message on_state a =
     mthen (finish_connect E on_state a)
     (mbind (impl_of a) (\<lambda>i.
      mwhen (tls_handshake_pending i)
        (mbind (continue_tls_handshake E on_state a) (\<lambda>complete.
         mwhen complete
           (mbind (read_data E on_message a) (\<lambda>r. mwhen (r < 0) (mark_for_closing a)))))))"

definition cleanup_closed :: "env \<Rightarrow> ('z loop_scheme, unit) M" where
  "cleanup_closed E =
     mbind (connection_keys E) (\<lambda>fs.
     mfor fs (\<lambda>f.
       mbind (connection_at f) (\<lambda>a.
       mbind (deref a) (\<lambda>c. mwhen (should_close c) (erase_connection f a)))))"

text \<open>The events to wait for.\<close>

definition poll_events :: "connection \<Rightarrow> impl \<Rightarrow> 16 word" where
  "poll_events c i =
     (POLLERR OR POLLHUP) OR
     (if tls_handshake_pending i
      then if tls_waiting_for_write i then POLLOUT
           else if tls_waiting_for_read i then POLLIN
           else POLLIN OR POLLOUT
      else if state c = CONNECTING then POLLOUT
      else if is_connected c then POLLIN
      else 0)"

definition build_pollfds :: "env \<Rightarrow> ('z loop_scheme, (int \<times> 16 word) list) M" where
  "build_pollfds E =
     mbind (connection_keys E) (\<lambda>fs.
     mmap (\<lambda>f. mbind (connection_at f) (\<lambda>a.
               mbind (deref a) (\<lambda>c.
               mbind (impl_of a) (\<lambda>i. mret (f, poll_events c i))))) fs)"

definition process_event ::
    "env \<Rightarrow> ('z loop_scheme) message_handler \<Rightarrow> ('z loop_scheme) state_handler \<Rightarrow> int \<Rightarrow> 16 word \<Rightarrow>
     ('z loop_scheme, unit) M" where
  "process_event E on_message on_state f revents =
     mbind (get_connection f) (\<lambda>p.
     case p of
       None \<Rightarrow> mret ()
     | Some a \<Rightarrow>
         if revents AND (POLLERR OR POLLHUP) \<noteq> 0 then mark_for_closing a
         else mthen (mwhen (revents AND POLLOUT \<noteq> 0) (handle_write_event E on_message on_state a))
                    (mwhen (revents AND POLLIN \<noteq> 0) (handle_read_event E on_message on_state a)))"

definition poll_and_process ::
    "env \<Rightarrow> ('z loop_scheme) message_handler \<Rightarrow> ('z loop_scheme) state_handler \<Rightarrow> int \<Rightarrow>
     ('z loop_scheme, unit) M" where
  "poll_and_process E on_message on_state timeout_ms =
     mbind (mget connections) (\<lambda>cs.
     if cs = [] then emit (Slept (timeout_ms * 1000))
     else
       mbind (build_pollfds E) (\<lambda>pfds.
       mbind (ask (\<lambda>n. sys_poll E n pfds timeout_ms)) (\<lambda>(ret, err, revents).
       if ret < 0 then mret ()
       else if ret = 0 then mret ()
       else mthen (mfor (zip (map fst pfds) revents)
                     (\<lambda>(f, ev). process_event E on_message on_state f ev))
                  (cleanup_closed E))))"

section \<open>Timers\<close>

text \<open>
  The iterator of \<open>check_timeouts\<close> splits the vector into the timers already looked at, \<open>past\<close>, and
  the rest.  A callback that changes the vector may invalidate the iterator: undefined behaviour.
\<close>

fun check_from ::
    "(timer \<Rightarrow> ('z loop_scheme, unit) M) \<Rightarrow> 64 word \<Rightarrow> timeout list \<Rightarrow> timeout list \<Rightarrow>
     ('z loop_scheme, unit) M" where
  "check_from fire now past [] = mret ()"
| "check_from fire now past (t # rest) =
     (if now \<ge> next_fire_ms t
      then mthen (fire (callback t))
           (mbind (mget timeouts) (\<lambda>ts.
            if ts \<noteq> past @ t # rest then mfail Undefined
            else if recurring t
            then let t' = t\<lparr>next_fire_ms := now + interval_ms t\<rparr> in
                 mthen (mmodify (\<lambda>w. w\<lparr>timeouts := past @ t' # rest\<rparr>))
                       (check_from fire now (past @ [t']) rest)
            else mthen (mmodify (\<lambda>w. w\<lparr>timeouts := past @ rest\<rparr>))
                       (check_from fire now past rest)))
      else check_from fire now (past @ [t]) rest)"

definition check_timeouts ::
    "env \<Rightarrow> (timer \<Rightarrow> ('z loop_scheme, unit) M) \<Rightarrow> ('z loop_scheme, unit) M" where
  "check_timeouts E fire =
     mbind (now_ms E) (\<lambda>now. mbind (mget timeouts) (\<lambda>ts. check_from fire now [] ts))"

section \<open>The loop\<close>

definition idle_poll_ms :: int where
  "idle_poll_ms = 1000"

definition earliest :: "timeout \<Rightarrow> timeout list \<Rightarrow> 64 word" where
  "earliest t ts =
     foldl (\<lambda>m u. if next_fire_ms u < m then next_fire_ms u else m) (next_fire_ms t) (t # ts)"

definition wait_for :: "64 word \<Rightarrow> 64 word \<Rightarrow> int" where
  "wait_for now next_timeout =
     (if next_timeout > now
      then let wait_ms = next_timeout - now in
           if wait_ms < word_of_int idle_poll_ms then uint wait_ms else idle_poll_ms
      else 0)"

definition poll_timeout :: "env \<Rightarrow> ('z loop_scheme, int) M" where
  "poll_timeout E =
     mbind (mget timeouts) (\<lambda>ts.
     case ts of
       [] \<Rightarrow> mret idle_poll_ms
     | t # us \<Rightarrow> mbind (now_ms E) (\<lambda>now. mret (wait_for now (earliest t us))))"

text \<open>One round of the loop; the result says whether another may follow.\<close>

definition run_round ::
    "env \<Rightarrow> ('z loop_scheme) message_handler \<Rightarrow> ('z loop_scheme) state_handler \<Rightarrow>
     (timer \<Rightarrow> ('z loop_scheme, unit) M) \<Rightarrow> ('z loop_scheme, bool) M" where
  "run_round E on_message on_state fire =
     mbind (poll_timeout E) (\<lambda>timeout_ms.
     mthen (poll_and_process E on_message on_state timeout_ms)
     (mthen (check_timeouts E fire)
     (mget (\<lambda>w. \<not> (connections w = [] \<and> timeouts w = [])))))"

fun run_rounds ::
    "nat \<Rightarrow> env \<Rightarrow> ('z loop_scheme) message_handler \<Rightarrow> ('z loop_scheme) state_handler \<Rightarrow>
     (timer \<Rightarrow> ('z loop_scheme, unit) M) \<Rightarrow> ('z loop_scheme, unit) M" where
  "run_rounds 0 E on_message on_state fire = mfail Out_of_fuel"
| "run_rounds (Suc fuel) E on_message on_state fire =
     mbind (mget running) (\<lambda>r.
     if \<not> r then mret ()
     else mbind (run_round E on_message on_state fire) (\<lambda>more.
          if more then run_rounds fuel E on_message on_state fire else mret ()))"

definition run ::
    "nat \<Rightarrow> env \<Rightarrow> ('z loop_scheme) message_handler \<Rightarrow> ('z loop_scheme) state_handler \<Rightarrow>
     (timer \<Rightarrow> ('z loop_scheme, unit) M) \<Rightarrow> ('z loop_scheme, unit) M" where
  "run fuel E on_message on_state fire =
     mthen (mmodify (\<lambda>w. w\<lparr>running := True\<rparr>)) (run_rounds fuel E on_message on_state fire)"

definition stop :: "('z loop_scheme, unit) M" where
  "stop = mmodify (\<lambda>w. w\<lparr>running := False\<rparr>)"

text \<open>The destructor: \<open>stop\<close>, and then the members, among them the connections, one by one.\<close>

definition destroy_connection :: "int \<Rightarrow> ('z loop_scheme, unit) M" where
  "destroy_connection f = mbind (connection_at f) (\<lambda>a. erase_connection f a)"

definition delete_event_loop :: "env \<Rightarrow> ('z loop_scheme, unit) M" where
  "delete_event_loop E =
     mthen stop
     (mthen (mmodify (\<lambda>w. w\<lparr>timeouts := []\<rparr>))
     (mbind (connection_keys E) (\<lambda>fs. mfor fs destroy_connection)))"

section \<open>Well-formed loops\<close>

text \<open>
  Addresses are given out in order, every object has its \<open>pimpl\<close> and an open descriptor that no other
  object has, and the table holds each object under its descriptor.  \<open>loop_owned\<close>: the loop owns
  every object, so none is leaked.
\<close>

definition heap_wf :: "'z net_scheme \<Rightarrow> bool" where
  "heap_wf w \<longleftrightarrow>
     (\<forall>b \<ge> next_addr w. heap w b = None) \<and>
     (\<forall>a c. heap w a = Some c \<longrightarrow> pimpl c \<noteq> None \<and> 0 \<le> fd c \<and> fd c \<in> set (open_fds w)) \<and>
     (\<forall>a b c d. heap w a = Some c \<and> heap w b = Some d \<and> fd c = fd d \<longrightarrow> a = b)"

definition table_wf :: "'z loop_scheme \<Rightarrow> bool" where
  "table_wf w \<longleftrightarrow>
     distinct (map fst (connections w)) \<and>
     (\<forall>f a. map_of (connections w) f = Some a \<longrightarrow> (\<exists>c. heap w a = Some c \<and> fd c = f))"

definition loop_wf :: "'z loop_scheme \<Rightarrow> bool" where
  "loop_wf w \<longleftrightarrow> heap_wf w \<and> table_wf w"

definition loop_owned :: "'z loop_scheme \<Rightarrow> bool" where
  "loop_owned w \<longleftrightarrow> (\<forall>a c. heap w a = Some c \<longrightarrow> map_of (connections w) (fd c) = Some a)"

lemma loop_wf_lookup:
  assumes "loop_wf w" and "map_of (connections w) f = Some a"
  obtains c i where "heap w a = Some c" "fd c = f" "pimpl c = Some i" "a < next_addr w" "0 \<le> f"
    "f \<in> set (open_fds w)"
proof -
  from assms obtain c where c: "heap w a = Some c" "fd c = f"
    unfolding loop_wf_def table_wf_def by blast
  with assms(1) obtain i where "pimpl c = Some i" "0 \<le> f" "f \<in> set (open_fds w)"
    unfolding loop_wf_def heap_wf_def by blast
  moreover have "a < next_addr w"
    using assms(1) c(1) by (auto simp: loop_wf_def heap_wf_def not_less [symmetric])
  ultimately show thesis using c that by blast
qed

lemma loop_wf_object:
  assumes "loop_wf w" and "heap w a = Some c"
  obtains i where "pimpl c = Some i" "a < next_addr w" "0 \<le> fd c" "fd c \<in> set (open_fds w)"
  using assms unfolding loop_wf_def heap_wf_def by (metis not_None_eq not_less)

lemma loop_wf_local: "local_invariant (loop_wf :: 'z loop_scheme \<Rightarrow> bool)"
proof
  fix w :: "'z loop_scheme" and n es a c c'
  assume w: "loop_wf w"
  show "loop_wf (w\<lparr>ticks := n\<rparr>)" "loop_wf (w\<lparr>effects := es\<rparr>)"
    using w by (simp_all add: loop_wf_def heap_wf_def table_wf_def)
  assume "heap w a = Some c" "evolves c c'"
  with w show "loop_wf (w\<lparr>heap := (heap w)(a \<mapsto> c')\<rparr>)"
    by (fastforce simp: loop_wf_def heap_wf_def table_wf_def evolves_defs)
qed

lemma loop_owned_local: "local_invariant (loop_owned :: 'z loop_scheme \<Rightarrow> bool)"
proof
  fix w :: "'z loop_scheme" and n es a c c'
  assume w: "loop_owned w"
  show "loop_owned (w\<lparr>ticks := n\<rparr>)" "loop_owned (w\<lparr>effects := es\<rparr>)"
    using w by (simp_all add: loop_owned_def)
  assume "heap w a = Some c" "evolves c c'"
  with w show "loop_owned (w\<lparr>heap := (heap w)(a \<mapsto> c')\<rparr>)"
    by (auto simp: loop_owned_def evolves_defs)
qed

interpretation wf_inv: local_invariant loop_wf
  by (rule loop_wf_local)

interpretation owned_inv: local_invariant loop_owned
  by (rule loop_owned_local)

lemma connections_more: "net.more (w :: 'z loop_scheme) = net.more w' \<Longrightarrow>
    connections w = connections w' \<and> timeouts w = timeouts w' \<and> running w = running w' \<and>
    loop.more w = loop.more w'"
  by (cases w; cases w') simp

lemma keeps_more_loop:
  assumes "keeps net.more (m :: ('z loop_scheme, 'a) M)"
  shows "keeps connections m" "keeps timeouts m" "keeps running m" "keeps loop.more m"
  using assms connections_more unfolding keeps_def by blast+

text \<open>What the operations on connections leave alone of the loop.\<close>

lemma keeps_timers_prims [frame]:
  "keeps timeouts (ask f :: ('z loop_scheme, 'a) M)"
  "keeps timeouts (emit e :: ('z loop_scheme, unit) M)"
  "keeps timeouts (register_fd d :: ('z loop_scheme, unit) M)"
  "keeps timeouts (close_fd d :: ('z loop_scheme, unit) M)"
  "keeps timeouts (deref a :: ('z loop_scheme, connection) M)"
  "keeps timeouts (update_conn a u :: ('z loop_scheme, unit) M)"
  "keeps timeouts (alloc c :: ('z loop_scheme, nat) M)"
  "keeps timeouts (free a :: ('z loop_scheme, unit) M)"
  "keeps timeouts (impl_of a :: ('z loop_scheme, impl) M)"
  "keeps timeouts (update_impl a v :: ('z loop_scheme, unit) M)"
  "keeps timeouts (send_line E a line :: ('z loop_scheme, bool) M)"
  by (intro keeps_more_loop(2) frame)+

section \<open>Erasing connections\<close>

text \<open>Erasing the entry of a well-formed table destroys its object and closes its descriptor.\<close>

lemma erase_connection_apply:
  assumes "heap w a = Some c" and "pimpl c = Some i" and "0 \<le> fd c"
  shows "erase_connection f a w =
    (Inr (), w\<lparr>connections := AList.delete f (connections w), heap := (heap w)(a := None),
       open_fds := filter (\<lambda>g. g \<noteq> fd c) (open_fds w),
       effects := effects w @ (if ssl i then [Tls_shutdown (fd c)] else []) @ [Closed (fd c)]\<rparr>)"
  using assms by (simp add: erase_connection_def delete_connection_apply)

lemma erase_loop_wf:
  assumes "loop_wf w" and "map_of (connections w) f = Some a"
  shows "\<exists>w'. erase_connection f a w = (Inr (), w') \<and> loop_wf w' \<and>
    connections w' = AList.delete f (connections w) \<and> heap w' = (heap w)(a := None) \<and>
    next_addr w' = next_addr w \<and> timeouts w' = timeouts w \<and> running w' = running w \<and>
    loop.more w' = loop.more w \<and> (loop_owned w \<longrightarrow> loop_owned w') \<and>
    open_fds w' = filter (\<lambda>g. g \<noteq> f) (open_fds w)"
proof -
  obtain c i where c: "heap w a = Some c" "fd c = f" "pimpl c = Some i" "0 \<le> f"
    using loop_wf_lookup [OF assms] by metis
  let ?w = "w\<lparr>connections := AList.delete f (connections w), heap := (heap w)(a := None),
       open_fds := filter (\<lambda>g. g \<noteq> f) (open_fds w),
       effects := effects w @ (if ssl i then [Tls_shutdown f] else []) @ [Closed f]\<rparr>"
  have e: "erase_connection f a w = (Inr (), ?w)"
    using erase_connection_apply [of w a c i f] c by simp
  have u: "heap w b = Some d \<Longrightarrow> fd d = f \<Longrightarrow> b = a" for b d
    using assms(1) c by (auto simp: loop_wf_def heap_wf_def)
  have h: "heap_wf ?w"
    using assms(1) u by (auto simp: loop_wf_def heap_wf_def)
  have t: "table_wf ?w"
    unfolding table_wf_def
  proof (intro conjI allI impI)
    show "distinct (map fst (connections ?w))"
      using assms(1) by (simp add: loop_wf_def table_wf_def distinct_delete)
    fix g b assume "map_of (connections ?w) g = Some b"
    then have g: "g \<noteq> f" "map_of (connections w) g = Some b" by (simp_all split: if_splits)
    then obtain d where d: "heap w b = Some d" "fd d = g"
      using loop_wf_lookup [OF assms(1)] by metis
    with g c have "b \<noteq> a" by auto
    with d show "\<exists>c. heap ?w b = Some c \<and> fd c = g" by simp
  qed
  have o: "loop_owned ?w" if "loop_owned w"
    unfolding loop_owned_def
  proof (intro allI impI)
    fix b d assume "heap ?w b = Some d"
    then have d: "b \<noteq> a" "heap w b = Some d" by (simp_all split: if_splits)
    with u that have "fd d \<noteq> f" "map_of (connections w) (fd d) = Some b"
      by (auto simp: loop_owned_def)
    then show "map_of (connections ?w) (fd d) = Some b" by simp
  qed
  from e h t o show ?thesis by (simp add: loop_wf_def)
qed

section \<open>Cleaning up\<close>

definition closing :: "'z net_scheme \<Rightarrow> nat \<Rightarrow> bool" where
  "closing w a \<longleftrightarrow> (case heap w a of None \<Rightarrow> False | Some c \<Rightarrow> should_close c)"

definition close_marked :: "int \<Rightarrow> ('z loop_scheme, unit) M" where
  "close_marked f =
     mbind (connection_at f) (\<lambda>a.
     mbind (deref a) (\<lambda>c. mwhen (should_close c) (erase_connection f a)))"

lemma cleanup_closed_alt: "cleanup_closed E = mbind (connection_keys E) (\<lambda>fs. mfor fs close_marked)"
  unfolding cleanup_closed_def close_marked_def [abs_def] ..

lemma close_marked_apply:
  assumes "loop_wf w" and "map_of (connections w) f = Some a"
  shows "\<exists>w'. close_marked f w = (Inr (), w') \<and> loop_wf w' \<and>
    map_of (connections w') = (if closing w a then (map_of (connections w))(f := None)
                               else map_of (connections w)) \<and>
    heap w' = (if closing w a then (heap w)(a := None) else heap w) \<and>
    next_addr w' = next_addr w \<and> timeouts w' = timeouts w \<and> running w' = running w \<and>
    loop.more w' = loop.more w \<and> (loop_owned w \<longrightarrow> loop_owned w')"
proof -
  obtain c where c: "heap w a = Some c" using loop_wf_lookup [OF assms] by metis
  then have at: "connection_at f w = (Inr a, w)"
    using assms(2) by (simp add: connection_at_def)
  show ?thesis
  proof (cases "should_close c")
    case True
    with erase_loop_wf [OF assms] c at show ?thesis
      by (auto simp: close_marked_def closing_def)
  next
    case False
    with assms c at show ?thesis by (simp add: close_marked_def closing_def)
  qed
qed

lemma close_all_marked:
  assumes "loop_wf w" and "distinct fs" and "\<forall>f \<in> set fs. map_of (connections w) f \<noteq> None"
  shows "\<exists>w'. mfor fs close_marked w = (Inr (), w') \<and> loop_wf w' \<and>
    (\<forall>f. map_of (connections w') f =
       (case map_of (connections w) f of
          None \<Rightarrow> None | Some a \<Rightarrow> if f \<in> set fs \<and> closing w a then None else Some a)) \<and>
    (\<forall>a. heap w' a = (if \<exists>f \<in> set fs. map_of (connections w) f = Some a \<and> closing w a then None
                       else heap w a)) \<and>
    next_addr w' = next_addr w \<and> timeouts w' = timeouts w \<and> running w' = running w \<and>
    loop.more w' = loop.more w \<and> (loop_owned w \<longrightarrow> loop_owned w')"
  using assms
proof (induction fs arbitrary: w)
  case Nil
  then show ?case by (auto split: option.splits)
next
  case (Cons f fs)
  from Cons.prems obtain a where a: "map_of (connections w) f = Some a" by auto
  obtain w1 where 1: "close_marked f w = (Inr (), w1)" "loop_wf w1"
    "map_of (connections w1) = (if closing w a then (map_of (connections w))(f := None)
                               else map_of (connections w))"
    "heap w1 = (if closing w a then (heap w)(a := None) else heap w)"
    "next_addr w1 = next_addr w" "timeouts w1 = timeouts w" "running w1 = running w"
    "loop.more w1 = loop.more w" "loop_owned w \<longrightarrow> loop_owned w1"
    using close_marked_apply [OF Cons.prems(1) a] by blast
  have u: "map_of (connections w) g = Some b \<Longrightarrow> b = a \<Longrightarrow> g = f" for g b
    using loop_wf_lookup [OF Cons.prems(1) a] loop_wf_lookup [OF Cons.prems(1), of g b] by (metis option.inject)
  have "\<forall>g \<in> set fs. map_of (connections w1) g \<noteq> None"
    using Cons.prems 1(3) by auto
  from Cons.IH [OF 1(2) _ this] Cons.prems(2) obtain w2 where 2:
    "mfor fs close_marked w1 = (Inr (), w2)" "loop_wf w2"
    "\<forall>f. map_of (connections w2) f =
       (case map_of (connections w1) f of
          None \<Rightarrow> None | Some a \<Rightarrow> if f \<in> set fs \<and> closing w1 a then None else Some a)"
    "\<forall>a. heap w2 a = (if \<exists>f \<in> set fs. map_of (connections w1) f = Some a \<and> closing w1 a then None
                       else heap w1 a)"
    "next_addr w2 = next_addr w1" "timeouts w2 = timeouts w1" "running w2 = running w1"
    "loop.more w2 = loop.more w1" "loop_owned w1 \<longrightarrow> loop_owned w2"
    by auto
  have c1: "closing w1 b = closing w b" if "b \<noteq> a" for b
    using 1(4) that by (auto simp: closing_def)
  have c2: "closing w a \<Longrightarrow> \<not> closing w1 a"
    using 1(4) by (simp add: closing_def)
  have m: "map_of (connections w2) g =
      (case map_of (connections w) g of
         None \<Rightarrow> None | Some b \<Rightarrow> if g \<in> set (f # fs) \<and> closing w b then None else Some b)" for g
  proof (cases "g = f")
    case True
    with 1(3,4) 2(3) a Cons.prems(2) show ?thesis by (auto simp: closing_def)
  next
    case False
    show ?thesis
    proof (cases "map_of (connections w) g")
      case None
      with False 1(3) 2(3) show ?thesis by auto
    next
      case (Some b)
      with u False have "b \<noteq> a" by blast
      with Some False 1(3) 2(3) c1 show ?thesis by auto
    qed
  qed
  have h: "heap w2 b = (if \<exists>g \<in> set (f # fs). map_of (connections w) g = Some b \<and> closing w b then None
                       else heap w b)" for b
  proof (cases "b = a")
    case True
    have n: "\<not> (\<exists>g \<in> set fs. map_of (connections w1) g = Some a \<and> closing w1 a)"
      using u 1(3) Cons.prems(2) by (auto split: if_splits)
    have "heap w2 a = heap w1 a" using 2(4) [rule_format, of a] unfolding if_not_P [OF n] .
    moreover have "(\<exists>g \<in> set (f # fs). map_of (connections w) g = Some a \<and> closing w a) = closing w a"
      using a by auto
    ultimately show ?thesis using True 1(4) by simp
  next
    case False
    with a have e: "map_of (connections w1) g = Some b \<longleftrightarrow> map_of (connections w) g = Some b" for g
      using 1(3) by auto
    have "(\<exists>g \<in> set fs. map_of (connections w1) g = Some b \<and> closing w1 b) =
        (\<exists>g \<in> set (f # fs). map_of (connections w) g = Some b \<and> closing w b)"
      using e c1 [OF False] a False by auto
    moreover have "heap w1 b = heap w b" using 1(4) False by simp
    ultimately show ?thesis using 2(4) by simp
  qed
  from 1 2 m h show ?case by auto
qed

text \<open>
  \<open>cleanup_closed\<close> never fails; it removes and destroys exactly the connections that are marked, and
  leaves every other connection as it was.
\<close>

lemma cleanup_closed_apply:
  assumes "environment E" and "loop_wf w"
  shows "\<exists>w'. cleanup_closed E w = (Inr (), w') \<and> loop_wf w' \<and>
    (\<forall>f. map_of (connections w') f =
       (case map_of (connections w) f of None \<Rightarrow> None | Some a \<Rightarrow> if closing w a then None else Some a)) \<and>
    (\<forall>a. heap w' a = (if (\<exists>f. map_of (connections w) f = Some a) \<and> closing w a then None else heap w a)) \<and>
    next_addr w' = next_addr w \<and> timeouts w' = timeouts w \<and> running w' = running w \<and>
    loop.more w' = loop.more w \<and> (loop_owned w \<longrightarrow> loop_owned w')"
proof -
  let ?fs = "hash_order E (ticks w) (map fst (connections w))"
  let ?w = "w\<lparr>ticks := Suc (ticks w)\<rparr>"
  have fs: "distinct ?fs" "set ?fs = fst ` set (connections w)"
    using assms by (simp_all add: environment.order_distinct environment.order_set loop_wf_def table_wf_def)
  have k: "f \<in> set ?fs \<longleftrightarrow> map_of (connections w) f \<noteq> None" for f
    using fs(2) by (simp add: map_of_eq_None_iff)
  have "loop_wf ?w" using assms(2) by (rule wf_inv.W_ticks)
  moreover have "\<forall>f \<in> set ?fs. map_of (connections ?w) f \<noteq> None" using k by simp
  ultimately obtain w' where w': "mfor ?fs close_marked ?w = (Inr (), w')" "loop_wf w'"
    "\<forall>f. map_of (connections w') f =
       (case map_of (connections ?w) f of
          None \<Rightarrow> None | Some a \<Rightarrow> if f \<in> set ?fs \<and> closing ?w a then None else Some a)"
    "\<forall>a. heap w' a = (if \<exists>f \<in> set ?fs. map_of (connections ?w) f = Some a \<and> closing ?w a then None
                       else heap ?w a)"
    "next_addr w' = next_addr ?w" "timeouts w' = timeouts ?w" "running w' = running ?w"
    "loop.more w' = loop.more ?w" "loop_owned ?w \<longrightarrow> loop_owned w'"
    using close_all_marked [OF _ fs(1), of ?w] by blast
  have "closing ?w = closing w" by (rule ext) (simp add: closing_def)
  moreover have "loop_owned w \<Longrightarrow> loop_owned ?w" by (rule owned_inv.W_ticks)
  ultimately show ?thesis using w' k
    by (auto simp: cleanup_closed_alt connection_keys_def split: option.splits)
qed

section \<open>The timers that fire\<close>

definition rescheduled :: "64 word \<Rightarrow> timeout \<Rightarrow> timeout list" where
  "rescheduled now t =
     (if now \<ge> next_fire_ms t
      then if recurring t then [t\<lparr>next_fire_ms := now + interval_ms t\<rparr>] else []
      else [t])"

text \<open>The callbacks that run, each with the vector of timers after it.\<close>

fun timer_rounds :: "64 word \<Rightarrow> timeout list \<Rightarrow> timeout list \<Rightarrow> (timer \<times> timeout list) list" where
  "timer_rounds now past [] = []"
| "timer_rounds now past (t # rest) =
     (let past' = past @ rescheduled now t in
      if now \<ge> next_fire_ms t then (callback t, past' @ rest) # timer_rounds now past' rest
      else timer_rounds now past' rest)"

lemma timer_rounds_fired:
  "map fst (timer_rounds now past ts) = map callback (filter (\<lambda>t. now \<ge> next_fire_ms t) ts)"
  by (induction now past ts rule: timer_rounds.induct) (simp_all add: Let_def)

lemma timer_rounds_left:
  "snd (last ((t, past @ ts) # timer_rounds now past ts)) = past @ concat (map (rescheduled now) ts)"
proof (induction now past ts arbitrary: t rule: timer_rounds.induct)
  case (2 now past u rest)
  then show ?case
    by (cases "now \<ge> next_fire_ms u") (simp_all add: Let_def rescheduled_def)
qed simp

definition fire_then ::
    "(timer \<Rightarrow> ('z loop_scheme, unit) M) \<Rightarrow> timer \<times> timeout list \<Rightarrow> ('z loop_scheme, unit) M" where
  "fire_then fire p = mthen (fire (fst p)) (mmodify (\<lambda>w. w\<lparr>timeouts := snd p\<rparr>))"

lemma fire_then_apply:
  "fire t w = (Inr (), w1) \<Longrightarrow> fire_then fire (t, ts) w = (Inr (), w1\<lparr>timeouts := ts\<rparr>)"
  "fire t w = (Inl e, w1) \<Longrightarrow> fire_then fire (t, ts) w = (Inl e, w1)"
  by (simp_all add: fire_then_def)

lemma check_from_rounds:
  assumes "\<And>t. keeps timeouts (fire t)" and "timeouts w = past @ ts"
  shows "check_from fire now past ts w = mfor (timer_rounds now past ts) (fire_then fire) w"
  using assms(2)
proof (induction now past ts arbitrary: w rule: timer_rounds.induct)
  case (1 now past)
  then show ?case by simp
next
  case (2 now past t rest)
  show ?case
  proof (cases "now \<ge> next_fire_ms t")
    case False
    with "2.IH" (2) [of "past @ [t]"] "2.prems" show ?thesis by (simp add: rescheduled_def)
  next
    case True
    obtain r w1 where f: "fire (callback t) w = (r, w1)" by (cases "fire (callback t) w")
    have ts: "timeouts w1 = past @ t # rest" using keepsD [OF assms(1) f] "2.prems" by simp
    let ?w = "w1\<lparr>timeouts := (past @ rescheduled now t) @ rest\<rparr>"
    have IH: "check_from fire now (past @ rescheduled now t) rest ?w =
        mfor (timer_rounds now (past @ rescheduled now t) rest) (fire_then fire) ?w"
      by (rule "2.IH" (1) [OF refl True]) simp
    show ?thesis
    proof (cases r)
      case (Inl e)
      with True f show ?thesis by (simp add: fire_then_apply Let_def)
    next
      case (Inr u)
      with True f ts IH show ?thesis
        by (simp add: fire_then_apply Let_def rescheduled_def split: if_splits)
    qed
  qed
qed

section \<open>How long to wait\<close>

lemma foldl_least:
  fixes f :: "'a \<Rightarrow> 64 word"
  shows "foldl (\<lambda>m u. if f u < m then f u else m) m ts = Min (insert m (f ` set ts))"
proof (induction ts arbitrary: m)
  case (Cons u ts)
  have "Min (insert m (f ` set (u # ts))) = Min (insert (min m (f u)) (f ` set ts))"
    by (cases "set ts = {}") (simp_all add: Min_insert min.assoc del: Min_insert2)
  moreover have "(if f u < m then f u else m) = min m (f u)"
    by (auto simp: min_def not_less)
  ultimately show ?case using Cons [of "min m (f u)"] by simp
qed simp

lemma earliest_Min: "earliest t ts = Min (next_fire_ms ` set (t # ts))"
  unfolding earliest_def foldl_least by simp

lemma wait_for_eq:
  "wait_for now next = (if now < next then min 1000 (uint next - uint now) else 0)"
proof (cases "now < next")
  case True
  then have u: "uint (next - now) = uint next - uint now"
    by (simp add: uint_sub_lem [THEN iffD1] word_less_def word_le_def)
  have "next - now < 1000 \<longleftrightarrow> uint next - uint now < 1000"
    unfolding word_less_def u by simp
  with True u show ?thesis by (simp add: wait_for_def Let_def idle_poll_ms_def min_def)
qed (simp add: wait_for_def)

section \<open>A new connection in the table\<close>

lemma add_connection_new:
  assumes "heap w a = Some c" and "map_of (connections w) (fd c) = None"
  shows "add_connection a w = (Inr (), w\<lparr>connections := AList.update (fd c) a (connections w)\<rparr>)"
  using assms by (simp add: add_connection_def)

text \<open>Assigning to an occupied slot destroys the old object, and closes the descriptor the new one has.\<close>

lemma add_connection_replaces:
  assumes "heap w a = Some c" and "map_of (connections w) (fd c) = Some b"
    and "heap w b = Some d" and "pimpl d = Some i" and "fd d = fd c" and "0 \<le> fd c"
  shows "\<exists>w'. add_connection a w = (Inr (), w') \<and> heap w' = (heap w)(b := None) \<and>
    fd c \<notin> set (open_fds w') \<and> map_of (connections w') (fd c) = Some a"
  using assms by (simp add: add_connection_def delete_connection_apply)

lemma loop_wf_closed:
  "loop_wf w \<Longrightarrow> f \<notin> set (open_fds w) \<Longrightarrow> map_of (connections w) f = None"
  by (meson loop_wf_lookup not_None_eq)

text \<open>The world once a connection on a new descriptor has been made and given to the loop.\<close>

definition with_connection :: "int \<Rightarrow> connection \<Rightarrow> 'z loop_scheme \<Rightarrow> 'z loop_scheme" where
  "with_connection f c w = w\<lparr>heap := (heap w)(next_addr w \<mapsto> c), next_addr := Suc (next_addr w),
     open_fds := f # open_fds w, connections := AList.update f (next_addr w) (connections w)\<rparr>"

lemma with_connection_wf:
  assumes "loop_wf w" and "fd c = f" and "0 \<le> f" and "f \<notin> set (open_fds w)" and "pimpl c = Some i"
  shows "loop_wf (with_connection f c w)"
proof -
  have n: "heap w b = Some d \<Longrightarrow> b < next_addr w \<and> fd d \<noteq> f" for b d
    using assms(1,4) by (metis heap_wf_def loop_wf_def not_less option.distinct(1))
  have "heap_wf (with_connection f c w)"
    using assms n by (auto simp: heap_wf_def loop_wf_def with_connection_def)
  moreover have "table_wf (with_connection f c w)"
    unfolding table_wf_def
  proof (intro conjI allI impI)
    show "distinct (map fst (connections (with_connection f c w)))"
      using assms(1) by (simp add: with_connection_def loop_wf_def table_wf_def distinct_update)
    fix g b assume g: "map_of (connections (with_connection f c w)) g = Some b"
    show "\<exists>c'. heap (with_connection f c w) b = Some c' \<and> fd c' = g"
    proof (cases "g = f")
      case True
      with g assms(2) show ?thesis by (auto simp: with_connection_def)
    next
      case False
      with g have "map_of (connections w) g = Some b" by (simp add: with_connection_def)
      with assms(1) obtain d where d: "heap w b = Some d" "fd d = g"
        unfolding loop_wf_def table_wf_def by blast
      with n have "b \<noteq> next_addr w" by blast
      with d show ?thesis by (simp add: with_connection_def)
    qed
  qed
  ultimately show ?thesis by (simp add: loop_wf_def)
qed

lemma with_connection_owned:
  assumes "loop_wf w" and "loop_owned w" and "fd c = f" and "f \<notin> set (open_fds w)"
  shows "loop_owned (with_connection f c w)"
  unfolding loop_owned_def
proof (intro allI impI)
  fix b d assume b: "heap (with_connection f c w) b = Some d"
  show "map_of (connections (with_connection f c w)) (fd d) = Some b"
  proof (cases "b = next_addr w")
    case True
    with b assms(3) show ?thesis by (auto simp: with_connection_def)
  next
    case False
    with b have d: "heap w b = Some d" by (simp add: with_connection_def)
    with assms have "fd d \<noteq> f" by (metis heap_wf_def loop_wf_def)
    with d assms(2) show ?thesis by (simp add: with_connection_def loop_owned_def)
  qed
qed

section \<open>Invariants through a round\<close>

text \<open>
  What the loop relies on: the callbacks and timers keep an invariant, which also survives the
  destruction of a connection in the table and the bookkeeping of the timers.
\<close>

locale loop_handlers = event_handlers W on_message on_state
  for W :: "'z loop_scheme \<Rightarrow> bool" and on_message :: "('z loop_scheme) message_handler"
    and on_state :: "('z loop_scheme) state_handler" +
  fixes E :: env and fire :: "timer \<Rightarrow> ('z loop_scheme, unit) M"
  assumes W_environment: "environment E"
    and W_loop: "W w \<Longrightarrow> loop_wf w"
    and W_erase: "W w \<Longrightarrow> map_of (connections w) f = Some a \<Longrightarrow> W (snd (erase_connection f a w))"
    and W_timers: "W w \<Longrightarrow> timeouts w = past @ t # rest \<Longrightarrow>
      W (w\<lparr>timeouts := past @ rescheduled now t @ rest\<rparr>)"
    and W_running: "W w \<Longrightarrow> W (w\<lparr>running := True\<rparr>)"
    and fire_invar: "invar W (fire x)"
    and fire_timeouts: "keeps timeouts (fire x)"
begin

lemma live_W: "(\<And>a k. invar (\<lambda>w. W w \<and> live a k w) m) \<Longrightarrow> heap w a = Some c \<Longrightarrow> W w \<Longrightarrow> W (snd (m w))"
proof -
  assume m: "\<And>a k. invar (\<lambda>w. W w \<and> live a k w) m" and c: "heap w a = Some c" and w: "W w"
  then have "a < next_addr w"
    using W_loop [OF w] by (auto simp: loop_wf_def heap_wf_def not_less [symmetric])
  with c w have "W w \<and> live a (key_of c) w" by (simp add: live_def)
  with m [of a "key_of c"] show "W (snd (m w))" unfolding invar_def by blast
qed

lemma handshake_live: "invar (\<lambda>w. W w \<and> live a k w) (continue_tls_handshake E on_state b)"
  unfolding continue_tls_handshake_def by (intro invar_live handshake_invar)

lemma set_state_live: "invar (\<lambda>w. W w \<and> live a k w) (set_state on_state b st)"
  by (intro invar_live set_state_invar)

lemma read_event_live: "invar (\<lambda>w. W w \<and> live a k w) (handle_read_event E on_message on_state b)"
  unfolding handle_read_event_def by (intro frame live_prims handshake_live read_data_invar)

lemma finish_connect_live: "invar (\<lambda>w. W w \<and> live a k w) (finish_connect E on_state b)"
  unfolding finish_connect_def
  by (auto intro!: frame live_prims set_state_live split: prod.splits)

lemma write_event_live: "invar (\<lambda>w. W w \<and> live a k w) (handle_write_event E on_message on_state b)"
  unfolding handle_write_event_def
  by (intro frame live_prims handshake_live read_data_invar finish_connect_live)

lemma process_event_invar: "invar W (process_event E on_message on_state f ev)"
proof -
  have "W (snd (process_event E on_message on_state f ev w))" if w: "W w" for w
  proof (cases "map_of (connections w) f")
    case None
    with w show ?thesis by (simp add: process_event_def get_connection_def)
  next
    case (Some a)
    then obtain c where c: "heap w a = Some c" using loop_wf_lookup [OF W_loop [OF w]] by metis
    let ?body = "if ev AND (POLLERR OR POLLHUP) \<noteq> 0 then mark_for_closing a
         else mthen (mwhen (ev AND POLLOUT \<noteq> 0) (handle_write_event E on_message on_state a))
                    (mwhen (ev AND POLLIN \<noteq> 0) (handle_read_event E on_message on_state a))"
    have "invar (\<lambda>w. W w \<and> live b k w) ?body" for b k
      by (intro frame live_prims write_event_live read_event_live)
    from live_W [OF this c w] Some show ?thesis
      by (simp add: process_event_def get_connection_def)
  qed
  then show ?thesis by (simp add: invar_def)
qed

lemma close_marked_invar: "invar W (close_marked f)"
proof -
  have "W (snd (close_marked f w))" if w: "W w" for w
  proof (cases "map_of (connections w) f")
    case None
    with w show ?thesis by (simp add: close_marked_def connection_at_def)
  next
    case (Some a)
    then obtain c where "heap w a = Some c" using loop_wf_lookup [OF W_loop [OF w]] by metis
    with Some w W_erase [OF w Some] show ?thesis
      by (cases "should_close c") (simp_all add: close_marked_def connection_at_def)
  qed
  then show ?thesis by (simp add: invar_def)
qed

lemma connection_prims:
  "invar W (connection_keys E)" "invar W (connection_at f)" "invar W (now_ms E)"
  unfolding connection_keys_def connection_at_def now_ms_def
  by (auto intro!: frame W_prims split: prod.splits)

lemma cleanup_invar: "invar W (cleanup_closed E)"
  unfolding cleanup_closed_alt by (intro frame connection_prims close_marked_invar)

lemma poll_invar: "invar W (poll_and_process E on_message on_state n)"
  unfolding poll_and_process_def build_pollfds_def
  by (auto intro!: frame W_prims connection_prims process_event_invar cleanup_invar split: prod.splits)

lemma timers_invar:
  assumes "W w" and "timeouts w = past @ ts"
  shows "W (snd (mfor (timer_rounds now past ts) (fire_then fire) w))"
  using assms
proof (induction now past ts arbitrary: w rule: timer_rounds.induct)
  case (2 now past t rest)
  show ?case
  proof (cases "now \<ge> next_fire_ms t")
    case False
    with "2.IH" (2) [OF refl False] "2.prems" show ?thesis by (simp add: rescheduled_def)
  next
    case True
    obtain r w1 where f: "fire (callback t) w = (r, w1)" by (cases "fire (callback t) w")
    have w1: "W w1" using invarD [OF fire_invar "2.prems" (1) f] .
    have ts: "timeouts w1 = past @ t # rest" using keepsD [OF fire_timeouts f] "2.prems" by simp
    let ?w = "w1\<lparr>timeouts := (past @ rescheduled now t) @ rest\<rparr>"
    have "W ?w" using W_timers [OF w1 ts] by simp
    from "2.IH" (1) [OF refl True this] f True show ?thesis
      by (cases r) (simp_all add: fire_then_apply Let_def w1)
  qed
qed simp

lemma check_timeouts_invar: "invar W (check_timeouts E fire)"
proof -
  have "W (snd (check_timeouts E fire w))" if w: "W w" for w
  proof -
    obtain now w1 where n: "now_ms E w = (Inr now, w1)"
      by (cases "sys_clock E (ticks w)") (simp add: now_ms_def)
    have "W w1" using invarD [OF connection_prims(3) w n] .
    then show ?thesis
      using n timers_invar [of w1 "[]" "timeouts w1"] check_from_rounds [OF fire_timeouts, of w1 "[]"]
      by (simp add: check_timeouts_def)
  qed
  then show ?thesis by (simp add: invar_def)
qed

lemma round_invar: "invar W (run_round E on_message on_state fire)"
proof -
  have "invar W (poll_timeout E)"
    unfolding poll_timeout_def by (auto intro!: frame connection_prims split: list.splits)
  then show ?thesis
    unfolding run_round_def by (intro frame poll_invar check_timeouts_invar)
qed

lemma rounds_invar: "invar W (run_rounds fuel E on_message on_state fire)"
proof (induction fuel)
  case 0
  show ?case unfolding run_rounds.simps by (rule frame)
next
  case (Suc n)
  show ?case unfolding run_rounds.simps by (intro frame round_invar Suc.IH)
qed

lemma run_invar: "invar W (run fuel E on_message on_state fire)"
  unfolding run_def by (intro frame rounds_invar invar_mmodify W_running)

end

section \<open>Failures of a round\<close>

text \<open>
  Whatever failures the callbacks can end in, the loop adds undefined behaviour.  What runs no message
  callback needs no bound on rounds.
\<close>

locale quiet_handlers =
  fixes S :: "failure set" and on_message :: "('z loop_scheme) message_handler"
    and on_state :: "('z loop_scheme) state_handler" and E :: env
    and fire :: "timer \<Rightarrow> ('z loop_scheme, unit) M"
  assumes undefined_in: "Undefined \<in> S"
    and message_safe: "only_fails S (on_message cb line)"
    and state_safe: "only_fails S (on_state cb st)"
    and fire_safe: "only_fails S (fire x)"
begin

lemma set_state_safe: "only_fails S (set_state on_state a st)"
  unfolding set_state_def by (intro safe undefined_in state_safe)

lemma mark_safe: "only_fails S (mark_for_closing a)"
  unfolding mark_for_closing_def by (intro safe undefined_in)

lemma handshake_safe: "only_fails S (continue_tls_handshake E on_state a)"
  unfolding continue_tls_handshake_def perform_tls_handshake_def handshake_step_def
  by (auto intro!: safe undefined_in set_state_safe mark_safe split: prod.splits)

lemma finish_connect_safe: "only_fails S (finish_connect E on_state a)"
  unfolding finish_connect_def
  by (auto intro!: safe undefined_in mark_safe set_state_safe split: prod.splits)

lemma deliver_safe: "only_fails S (deliver on_message a cb rs)"
  unfolding deliver_def by (intro safe) (auto intro!: safe undefined_in message_safe)

lemma erase_safe: "only_fails S (erase_connection f a)"
  unfolding erase_connection_def delete_connection_def by (intro safe undefined_in)

lemma connection_at_safe: "only_fails S (connection_at f)" "only_fails S (connection_keys E)"
  unfolding connection_at_def connection_keys_def by (intro safe undefined_in)+

lemma cleanup_safe: "only_fails S (cleanup_closed E)"
  unfolding cleanup_closed_def by (intro safe undefined_in connection_at_safe erase_safe)

lemma pollfds_safe: "only_fails S (build_pollfds E)"
  unfolding build_pollfds_def by (intro safe undefined_in connection_at_safe)

lemma check_from_safe: "only_fails S (check_from fire now past ts)"
proof (induction ts arbitrary: past)
  case Nil
  show ?case unfolding check_from.simps by (rule safe)
next
  case (Cons t rest)
  show ?case unfolding check_from.simps Let_def
    by (intro safe undefined_in fire_safe Cons.IH)
qed

lemma timers_safe: "only_fails S (poll_timeout E)" "only_fails S (check_timeouts E fire)"
  unfolding poll_timeout_def check_timeouts_def now_ms_def
  by (auto intro!: safe check_from_safe split: prod.splits list.splits)

end

text \<open>With the fuel of the two unbounded loops among the failures.\<close>

locale safe_handlers = quiet_handlers +
  assumes fuel_in: "Out_of_fuel \<in> S"
begin

lemma process_safe: "only_fails S (process_read_buffer on_message fuel a)"
proof (induction fuel)
  case 0
  show ?case unfolding process_read_buffer.simps by (intro safe fuel_in)
next
  case (Suc n)
  show ?case unfolding process_read_buffer.simps Let_def
    by (intro safe undefined_in message_safe Suc.IH)
qed

lemma receive_safe: "only_fails S (receive_bytes on_message a bytes)"
  unfolding receive_bytes_def by (intro safe undefined_in process_safe)

lemma read_data_safe: "only_fails S (read_data E on_message a)"
  unfolding read_data_def
  by (auto intro!: safe undefined_in mark_safe receive_safe split: prod.splits read_result.splits)

lemma process_event_safe: "only_fails S (process_event E on_message on_state f ev)"
  unfolding process_event_def get_connection_def handle_write_event_def handle_read_event_def
  by (auto intro!: safe undefined_in mark_safe handshake_safe read_data_safe finish_connect_safe
      split: prod.splits)

lemma poll_safe: "only_fails S (poll_and_process E on_message on_state n)"
  unfolding poll_and_process_def
  by (auto intro!: safe undefined_in pollfds_safe process_event_safe cleanup_safe split: prod.splits)

lemma round_safe: "only_fails S (run_round E on_message on_state fire)"
  unfolding run_round_def by (intro safe poll_safe timers_safe)

lemma rounds_safe: "only_fails S (run_rounds fuel E on_message on_state fire)"
proof (induction fuel)
  case 0
  show ?case unfolding run_rounds.simps by (intro safe fuel_in)
next
  case (Suc n)
  show ?case unfolding run_rounds.simps by (intro safe round_safe Suc.IH)
qed

lemma run_safe: "only_fails S (run fuel E on_message on_state fire)"
  unfolding run_def by (intro safe rounds_safe)

end

section \<open>A round comes to its end\<close>

text \<open>
  Under an invariant that gives every object its message callback, the fuel of a round's loops is never
  used up: the callbacks leave the unread input alone, so each line is taken once.
\<close>

locale prompt_handlers =
  loop_handlers W on_message on_state E fire + quiet_handlers S on_message on_state E fire
  for W :: "'z loop_scheme \<Rightarrow> bool" and on_message :: "('z loop_scheme) message_handler"
    and on_state :: "('z loop_scheme) state_handler" and E :: env
    and fire :: "timer \<Rightarrow> ('z loop_scheme, unit) M" and S :: "failure set" +
  assumes W_callback: "W w \<Longrightarrow> heap w a = Some c \<Longrightarrow> message_cb c \<noteq> None"
begin

lemma receive_prompt: "safe_under W S (receive_bytes on_message a bytes)"
  unfolding safe_under_def
proof (intro allI impI)
  fix w e w'
  assume w: "W w" and r: "receive_bytes on_message a bytes w = (Inl e, w')"
  show "e \<in> S"
  proof (cases "heap w a")
    case None
    with r undefined_in show ?thesis by (simp add: receive_bytes_def)
  next
    case (Some c)
    obtain cb where cb: "message_cb c = Some cb" using W_callback [OF w Some] by auto
    have "a < next_addr w"
      using W_loop [OF w] Some by (metis heap_wf_def loop_wf_def not_less option.distinct(1))
    note d = receive_delivers [OF w Some this cb, of bytes]
    have "only_fails S (mthen (deliver on_message a cb rs) (mret (int (length bytes))))" for rs
      by (intro safe deliver_safe)
    with r show ?thesis unfolding d by (metis only_failsD)
  qed
qed

lemma leaves_prompt:
  "safe_under I S (mret x)" "safe_under I S (mget f)" "safe_under I S (ask g)" "safe_under I S (emit e)"
  "safe_under I S (deref b)" "safe_under I S (impl_of b)" "safe_under I S (mark_for_closing b)"
  by (intro under_only_fails safe undefined_in mark_safe)+

lemma mark_keeps: "invar W (mark_for_closing b)"
  unfolding mark_for_closing_def by (intro W_update_conn) (simp add: evolves_defs)

lemma read_data_prompt: "safe_under W S (read_data E on_message a)"
  unfolding read_data_def
  by (auto intro!: under W_prims receive_prompt leaves_prompt mark_keeps split: prod.splits read_result.splits)

lemma live_prompt: "safe_under W S m \<Longrightarrow> safe_under (\<lambda>w. W w \<and> live a k w) S m"
  by (erule under_mono) simp

lemma read_event_prompt:
  "safe_under (\<lambda>w. W w \<and> live a k w) S (handle_read_event E on_message on_state b)"
  unfolding handle_read_event_def
  by (intro under live_prompt [OF read_data_prompt] live_prims handshake_live read_data_invar
      under_only_fails [OF handshake_safe] leaves_prompt)

lemma write_event_prompt:
  "safe_under (\<lambda>w. W w \<and> live a k w) S (handle_write_event E on_message on_state b)"
  unfolding handle_write_event_def
  by (intro under live_prompt [OF read_data_prompt] live_prims handshake_live read_data_invar
      finish_connect_live under_only_fails [OF handshake_safe] under_only_fails [OF finish_connect_safe]
      leaves_prompt)

lemma process_event_prompt: "safe_under W S (process_event E on_message on_state f ev)"
  unfolding safe_under_def
proof (intro allI impI)
  fix w e w'
  assume w: "W w" and r: "process_event E on_message on_state f ev w = (Inl e, w')"
  show "e \<in> S"
  proof (cases "map_of (connections w) f")
    case None
    with r show ?thesis by (simp add: process_event_def get_connection_def)
  next
    case (Some a)
    then obtain c where c: "heap w a = Some c" "a < next_addr w"
      using loop_wf_lookup [OF W_loop [OF w]] by metis
    let ?body = "if ev AND (POLLERR OR POLLHUP) \<noteq> 0 then mark_for_closing a
         else mthen (mwhen (ev AND POLLOUT \<noteq> 0) (handle_write_event E on_message on_state a))
                    (mwhen (ev AND POLLIN \<noteq> 0) (handle_read_event E on_message on_state a))"
    have "safe_under (\<lambda>w. W w \<and> live a (key_of c) w) S ?body"
      by (intro under frame live_prims write_event_live read_event_prompt write_event_prompt
          leaves_prompt)
    moreover have "W w \<and> live a (key_of c) w" using w c by (simp add: live_def)
    moreover have "?body w = (Inl e, w')" using r Some by (simp add: process_event_def get_connection_def)
    ultimately show ?thesis by (rule safe_underD)
  qed
qed

lemma poll_prompt: "safe_under W S (poll_and_process E on_message on_state n)"
proof -
  have b: "invar W (build_pollfds E)"
    unfolding build_pollfds_def by (intro frame W_prims connection_prims)
  show ?thesis
    unfolding poll_and_process_def
    by (auto intro!: under leaves_prompt frame W_prims b process_event_prompt process_event_invar
        under_only_fails [OF pollfds_safe] under_only_fails [OF cleanup_safe] split: prod.splits)
qed

lemma round_prompt: "safe_under W S (run_round E on_message on_state fire)"
proof -
  have "invar W (poll_timeout E)"
    unfolding poll_timeout_def by (auto intro!: frame connection_prims split: list.splits)
  then show ?thesis
    unfolding run_round_def
    by (intro under poll_prompt poll_invar check_timeouts_invar under_only_fails [OF timers_safe(1)]
        under_only_fails [OF timers_safe(2)] leaves_prompt)
qed

end

section \<open>A loop with a recurring timer\<close>

text \<open>
  \<open>alive\<close>: the loop runs and has a timer that comes back.  A loop that is kept alive by its
  handlers never returns.
\<close>

definition alive :: "'z loop_scheme \<Rightarrow> bool" where
  "alive w \<longleftrightarrow> running w \<and> (\<exists>t \<in> set (timeouts w). recurring t)"

lemma alive_rescheduled:
  "alive w \<Longrightarrow> timeouts w = past @ t # rest \<Longrightarrow> alive (w\<lparr>timeouts := past @ rescheduled now t @ rest\<rparr>)"
  by (auto simp: alive_def rescheduled_def)

context loop_handlers begin

lemma round_more:
  assumes "\<And>w. W w \<Longrightarrow> alive w" and "W w" and "run_round E on_message on_state fire w = (Inr again, w')"
  shows "again"
proof -
  have w': "W w'" using invarD [OF round_invar assms(2,3)] .
  then have "timeouts w' \<noteq> []" using assms(1) [OF w'] by (auto simp: alive_def)
  with assms(3) show ?thesis
    by (auto simp: run_round_def mbind_def mthen_def split: prod.splits sum.splits)
qed

lemma rounds_no_return:
  assumes "\<And>w. W w \<Longrightarrow> alive w" and "W w"
  shows "fst (run_rounds fuel E on_message on_state fire w) \<noteq> Inr ()"
  using assms(2)
proof (induction fuel arbitrary: w)
  case (Suc n)
  have r: "running w" using assms(1) [OF Suc.prems] by (simp add: alive_def)
  obtain q w' where q: "run_round E on_message on_state fire w = (q, w')"
    by (cases "run_round E on_message on_state fire w")
  show ?case
  proof (cases q)
    case (Inl e)
    with q r show ?thesis by simp
  next
    case (Inr again)
    with q have "again" "W w'" using round_more [OF assms(1) Suc.prems] invarD [OF round_invar Suc.prems]
      by simp_all
    with q r Inr Suc.IH show ?thesis by simp
  qed
qed simp

end

section \<open>What a round does\<close>

definition demo_loop :: loop where
  "demo_loop = \<lparr>heap = [0 \<mapsto> demo_conn], next_addr = 1, open_fds = [5, 0, 1, 2], ticks = 0, effects = [],
     connections = [(5, 0)], timeouts = [], running = True\<rparr>"

lemma demo_loop_fields [simp]:
  "heap demo_loop = [0 \<mapsto> demo_conn]" "next_addr demo_loop = 1" "open_fds demo_loop = [5, 0, 1, 2]"
  "ticks demo_loop = 0" "effects demo_loop = []" "connections demo_loop = [(5, 0)]"
  "timeouts demo_loop = []" "running demo_loop"
  by (simp_all add: demo_loop_def)

lemma demo_loop_wf: "loop_wf demo_loop" "loop_owned demo_loop"
  by (auto simp: loop_wf_def heap_wf_def table_wf_def loop_owned_def split: if_splits)

text \<open>Property C28: \<open>cleanup_closed\<close> never fails; it takes out of the table and destroys exactly the
  connections that are marked for closing, and leaves every other connection, the timers and
  everything above the loop as they were.\<close>

theorem cleanup_exact:
  assumes "environment E" and "loop_wf w"
  shows "\<exists>w'. cleanup_closed E w = (Inr (), w') \<and> loop_wf w' \<and>
    (\<forall>f. map_of (connections w') f =
       (case map_of (connections w) f of None \<Rightarrow> None | Some a \<Rightarrow> if closing w a then None else Some a)) \<and>
    (\<forall>a. heap w' a = (if (\<exists>f. map_of (connections w) f = Some a) \<and> closing w a then None else heap w a)) \<and>
    timeouts w' = timeouts w \<and> running w' = running w \<and> loop.more w' = loop.more w"
  using cleanup_closed_apply [OF assms] by blast

theorem cleanup_exact_witness:
  "\<exists>w'. cleanup_closed calm_env (demo_loop\<lparr>heap := [0 \<mapsto> demo_conn\<lparr>should_close := True\<rparr>]\<rparr>) = (Inr (), w') \<and>
    map_of (connections w') 5 = None \<and> heap w' 0 = None"
proof -
  let ?w = "demo_loop\<lparr>heap := [0 \<mapsto> demo_conn\<lparr>should_close := True\<rparr>]\<rparr>"
  have "?w = demo_loop\<lparr>heap := (heap demo_loop)(0 \<mapsto> demo_conn\<lparr>should_close := True\<rparr>)\<rparr>" by simp
  then have "loop_wf ?w"
    using wf_inv.W_update [OF demo_loop_wf(1), of 0 demo_conn "demo_conn\<lparr>should_close := True\<rparr>"]
    by (simp add: evolves_defs)
  from cleanup_exact [OF calm.environment_axioms this] show ?thesis
    by (fastforce simp: closing_def)
qed

lemma mfor_fire_then:
  "mfor rs (fire_then fire) w = (Inr (), w') \<Longrightarrow> timeouts w' = snd (last ((x, timeouts w) # rs))"
proof (induction rs arbitrary: x w)
  case (Cons p rs)
  obtain t ts where p: "p = (t, ts)" by (cases p)
  with Cons.prems obtain w1 where "fire_then fire p w = (Inr (), w1\<lparr>timeouts := ts\<rparr>)"
    "mfor rs (fire_then fire) (w1\<lparr>timeouts := ts\<rparr>) = (Inr (), w')"
    by (cases "fire t w"; cases "fst (fire t w)") (auto simp: fire_then_apply)
  with Cons.IH [of "w1\<lparr>timeouts := ts\<rparr>" t] p show ?case by simp
qed simp

text \<open>Property C29: provided the callbacks leave the timers alone, \<open>check_timeouts\<close> runs exactly the
  callbacks that are due, in the order of the vector, each one once; afterwards the vector holds the
  timers that were not due, and the recurring ones moved one interval from now, in the same order;
  the one-shot timers that fired are gone.  The iterator is never used after an invalidation.\<close>

theorem check_timeouts_spec:
  assumes "\<forall>t. keeps timeouts (fire t)" and "now_ms E w = (Inr now, w1)"
  shows "check_timeouts E fire w = mfor (timer_rounds now [] (timeouts w)) (fire_then fire) w1 \<and>
    map fst (timer_rounds now [] (timeouts w)) = map callback (filter (\<lambda>t. next_fire_ms t \<le> now) (timeouts w)) \<and>
    (\<forall>w'. check_timeouts E fire w = (Inr (), w') \<longrightarrow>
       timeouts w' = concat (map (rescheduled now) (timeouts w)))"
proof -
  have t: "timeouts w1 = timeouts w"
    using assms(2) by (cases "sys_clock E (ticks w)") (auto simp: now_ms_def)
  have eq: "check_timeouts E fire w = mfor (timer_rounds now [] (timeouts w)) (fire_then fire) w1"
    using check_from_rounds [of fire w1 "[]" "timeouts w" now] assms t
    by (simp add: check_timeouts_def)
  show ?thesis
    using eq t mfor_fire_then [of _ fire w1 _ Accept_timer] timer_rounds_fired [of now "[]" "timeouts w"]
      timer_rounds_left [of Accept_timer "[]" "timeouts w" now]
    by simp
qed

definition tick_timer :: timeout where
  "tick_timer = \<lparr>next_fire_ms = 0, interval_ms = 100, callback = Accept_timer, recurring = True\<rparr>"

definition once_timer :: timeout where
  "once_timer = \<lparr>next_fire_ms = 0, interval_ms = 5000, callback = Reconnect_timer, recurring = False\<rparr>"

theorem check_timeouts_spec_witness:
  "\<exists>w'. check_timeouts calm_env (\<lambda>t. mret ()) (demo_loop\<lparr>timeouts := [once_timer, tick_timer]\<rparr>) = (Inr (), w') \<and>
    timeouts w' = [tick_timer\<lparr>next_fire_ms := 100\<rparr>]"
proof -
  let ?w = "demo_loop\<lparr>timeouts := [once_timer, tick_timer]\<rparr>"
  have n: "now_ms calm_env ?w = (Inr 0, ?w\<lparr>ticks := 1\<rparr>)" by (simp add: now_ms_def calm_env_def)
  have k: "\<forall>t. keeps timeouts ((\<lambda>t. mret ()) t :: (loop, unit) M)" by (simp add: keeps_def)
  have r: "rescheduled 0 once_timer = []" "rescheduled 0 tick_timer = [tick_timer\<lparr>next_fire_ms := 100\<rparr>]"
    by (simp_all add: rescheduled_def once_timer_def tick_timer_def)
  have "\<exists>w'. check_timeouts calm_env (\<lambda>t. mret ()) ?w = (Inr (), w')"
    using check_timeouts_spec [OF k n]
    by (simp add: once_timer_def tick_timer_def rescheduled_def fire_then_apply Let_def)
  with check_timeouts_spec [OF k n] r show ?thesis by auto
qed

text \<open>Property C30: the loop never sleeps longer than a second, nor past the earliest timer: it waits a
  second when there is no timer, not at all when the earliest one is due, and otherwise until it is
  due, at most a second.\<close>

theorem poll_timeout_bound:
  assumes "now_ms E w = (Inr now, w1)"
  shows "\<exists>n w'. poll_timeout E w = (Inr n, w') \<and> 0 \<le> n \<and> n \<le> 1000 \<and>
    n = (if timeouts w = [] then 1000
         else let nx = Min (next_fire_ms ` set (timeouts w)) in
           if now < nx then min 1000 (uint nx - uint now) else 0)"
proof (cases "timeouts w")
  case Nil
  then show ?thesis by (simp add: poll_timeout_def idle_poll_ms_def)
next
  case (Cons t ts)
  have "0 \<le> uint nx - uint now" if "now < nx" for nx :: "64 word"
    using that by (simp add: word_less_def)
  with Cons assms show ?thesis
    by (simp add: poll_timeout_def wait_for_eq earliest_Min Let_def)
qed

theorem poll_timeout_bound_witness:
  "\<exists>n w'. poll_timeout calm_env (demo_loop\<lparr>timeouts := [once_timer\<lparr>next_fire_ms := 5000\<rparr>,
     tick_timer\<lparr>next_fire_ms := 100\<rparr>]\<rparr>) = (Inr n, w') \<and> n = 100"
proof -
  let ?w = "demo_loop\<lparr>timeouts := [once_timer\<lparr>next_fire_ms := 5000\<rparr>, tick_timer\<lparr>next_fire_ms := 100\<rparr>]\<rparr>"
  have n: "now_ms calm_env ?w = (Inr 0, ?w\<lparr>ticks := 1\<rparr>)" by (simp add: now_ms_def calm_env_def)
  have "min (5000 :: 64 word) 100 = 100" by (simp add: min_def)
  with poll_timeout_bound [OF n] show ?thesis by (auto simp: Let_def)
qed

text \<open>The events polled for.  Errors and hang-ups always; readability when the handshake
  does not insist on writing, or when the connection counts as connected and no handshake is pending;
  writability when the handshake does not insist on reading, or while connecting without one.\<close>

theorem poll_events_spec:
  "poll_events c i AND POLLERR \<noteq> 0 \<and> poll_events c i AND POLLHUP \<noteq> 0 \<and>
   (poll_events c i AND POLLIN \<noteq> 0 \<longleftrightarrow>
      (if tls_handshake_pending i then \<not> tls_want_write i
       else state c \<noteq> CONNECTING \<and> is_connected c)) \<and>
   (poll_events c i AND POLLOUT \<noteq> 0 \<longleftrightarrow>
      (if tls_handshake_pending i then \<not> (tls_want_read i \<and> \<not> tls_want_write i)
       else state c = CONNECTING))"
proof -
  have b: "((8 OR 16) OR 4) AND (8 :: 16 word) = 8" "((8 OR 16) OR 4) AND (16 :: 16 word) = 16"
    "((8 OR 16) OR 4) AND (1 :: 16 word) = 0" "((8 OR 16) OR 4) AND (4 :: 16 word) = 4"
    "((8 OR 16) OR 1) AND (8 :: 16 word) = 8" "((8 OR 16) OR 1) AND (16 :: 16 word) = 16"
    "((8 OR 16) OR 1) AND (1 :: 16 word) = 1" "((8 OR 16) OR 1) AND (4 :: 16 word) = 0"
    "((8 OR 16) OR (1 OR 4)) AND (8 :: 16 word) = 8" "((8 OR 16) OR (1 OR 4)) AND (16 :: 16 word) = 16"
    "((8 OR 16) OR (1 OR 4)) AND (1 :: 16 word) = 1" "((8 OR 16) OR (1 OR 4)) AND (4 :: 16 word) = 4"
    "((8 OR 16) OR 0) AND (8 :: 16 word) = 8" "((8 OR 16) OR 0) AND (16 :: 16 word) = 16"
    "((8 OR 16) OR 0) AND (1 :: 16 word) = 0" "((8 OR 16) OR 0) AND (4 :: 16 word) = 0"
    by code_simp+
  show ?thesis
    unfolding poll_events_def tls_waiting_for_read_def tls_waiting_for_write_def
    by (simp add: b)
qed

text \<open>An error or a hang-up on a connection only marks it: no callback runs, its state
  stays as it was, and nothing else changes, whatever other events came with it.\<close>

theorem error_event_only_marks:
  assumes "map_of (connections w) f = Some a" and "heap w a = Some c"
    and "ev AND (POLLERR OR POLLHUP) \<noteq> 0"
  shows "process_event E on_message on_state f ev w =
    (Inr (), w\<lparr>heap := (heap w)(a \<mapsto> c\<lparr>should_close := True\<rparr>)\<rparr>)"
  using assms by (simp add: process_event_def get_connection_def)

theorem error_event_only_marks_witness:
  "process_event calm_env (\<lambda>cb l. mfail Undefined) (\<lambda>cb s. mfail Undefined) 5 POLLHUP demo_loop =
    (Inr (), demo_loop\<lparr>heap := (heap demo_loop)(0 \<mapsto> demo_conn\<lparr>should_close := True\<rparr>)\<rparr>)"
proof -
  have "POLLHUP AND (POLLERR OR POLLHUP) \<noteq> 0" by code_simp
  with error_event_only_marks [of demo_loop 5 0 demo_conn POLLHUP calm_env "\<lambda>cb l. mfail Undefined"
      "\<lambda>cb s. mfail Undefined"]
  show ?thesis by simp
qed

section \<open>The end of the loop\<close>

lemma destroy_all:
  assumes "loop_wf w" and "loop_owned w" and "distinct fs" and "\<forall>f \<in> set fs. map_of (connections w) f \<noteq> None"
  shows "\<exists>w'. mfor fs destroy_connection w = (Inr (), w') \<and> loop_wf w' \<and> loop_owned w' \<and>
    map_of (connections w') = (map_of (connections w)) |` (- set fs) \<and>
    open_fds w' = filter (\<lambda>g. g \<notin> set fs) (open_fds w) \<and> timeouts w' = timeouts w \<and>
    loop.more w' = loop.more w"
  using assms
proof (induction fs arbitrary: w)
  case (Cons f fs)
  then obtain a where a: "map_of (connections w) f = Some a" by auto
  obtain v where v: "erase_connection f a w = (Inr (), v)" "loop_wf v" "loop_owned v"
    "connections v = AList.delete f (connections w)" "open_fds v = filter (\<lambda>g. g \<noteq> f) (open_fds w)"
    "timeouts v = timeouts w" "loop.more v = loop.more w"
    using erase_loop_wf [OF Cons.prems(1) a] Cons.prems(2) by blast
  have d: "destroy_connection f w = (Inr (), v)"
    using a v(1) by (simp add: destroy_connection_def connection_at_def)
  have m: "\<forall>g \<in> set fs. map_of (connections v) g \<noteq> None" using Cons.prems(3,4) v(4) by auto
  have "distinct fs" using Cons.prems(3) by simp
  from Cons.IH [OF v(2,3) this m] obtain w' where w': "mfor fs destroy_connection v = (Inr (), w')"
    "loop_wf w'" "loop_owned w'" "map_of (connections w') = (map_of (connections v)) |` (- set fs)"
    "open_fds w' = filter (\<lambda>g. g \<notin> set fs) (open_fds v)" "timeouts w' = timeouts v" "loop.more w' = loop.more v"
    by blast
  have "map_of (connections w') = (map_of (connections w)) |` (- set (f # fs))"
    using w'(4) v(4) by (auto simp: restrict_map_def fun_eq_iff)
  moreover have "open_fds w' = filter (\<lambda>g. g \<notin> set (f # fs)) (open_fds w)"
    using w'(5) v(5) by (simp add: conj_commute)
  ultimately show ?case using d w' v by (intro exI [of _ w']) simp
qed (simp add: restrict_map_def)

lemma delete_event_loop_apply:
  assumes "environment E" and "loop_wf w" and "loop_owned w"
  shows "\<exists>w'. delete_event_loop E w = (Inr (), w') \<and> connections w' = [] \<and> heap w' = Map.empty \<and>
    timeouts w' = [] \<and> open_fds w' = filter (\<lambda>g. g \<notin> dom (map_of (connections w))) (open_fds w) \<and>
    loop.more w' = loop.more w"
proof -
  let ?v = "w\<lparr>running := False, timeouts := [], ticks := Suc (ticks w)\<rparr>"
  let ?fs = "hash_order E (ticks w) (map fst (connections w))"
  have v: "loop_wf ?v" "loop_owned ?v"
    using assms(2,3) by (simp_all add: loop_wf_def heap_wf_def table_wf_def loop_owned_def)
  have fs: "distinct ?fs" "set ?fs = dom (map_of (connections w))"
    using assms(1,2) by (simp_all add: environment.order_distinct environment.order_set loop_wf_def table_wf_def
        dom_map_of_conv_image_fst)
  then have "\<forall>f \<in> set ?fs. map_of (connections ?v) f \<noteq> None" by (simp add: domD domIff)
  from destroy_all [OF v fs(1) this] obtain w' where w': "mfor ?fs destroy_connection ?v = (Inr (), w')"
    "loop_wf w'" "loop_owned w'" "map_of (connections w') = (map_of (connections ?v)) |` (- set ?fs)"
    "open_fds w' = filter (\<lambda>g. g \<notin> set ?fs) (open_fds ?v)" "timeouts w' = timeouts ?v" "loop.more w' = loop.more ?v"
    by blast
  have "map_of (connections w') = Map.empty"
    using w'(4) fs(2) by (auto simp: restrict_map_def fun_eq_iff)
  then have c: "connections w' = []" using map_of_eq_empty_iff by blast
  then have "heap w' a = None" for a
    using w'(3) by (cases "heap w' a") (auto simp: loop_owned_def)
  then have "heap w' = Map.empty" by (rule ext)
  with c w' fs(2) show ?thesis
    by (intro exI [of _ w']) (simp add: delete_event_loop_def stop_def connection_keys_def mthen_def)
qed

end
