(* ===== verification/Pool_Manager.thy ===== *)
theory Pool_Manager
  imports Event_Loop
begin

text \<open>
  The upstream side: \<open>src/gpu-proxy-cpp/src/pool_manager.hpp\<close> and \<open>pool_manager.cpp\<close>.  One
  connection to the current pool, its login, its jobs, the shares submitted to it and the routing of
  the verdicts, with reconnection and failover.
\<close>

section \<open>State\<close>

text \<open>
  \<open>pool_conn\<close> is the non-owning pointer, \<open>None\<close> when null.  \<open>next_id\<close> and the keys of
  \<open>share_to_worker\<close> are C \<open>int\<close>s.  The members \<open>extra_nonce1_\<close> and \<open>extra_nonce2_size_\<close> are never
  used and left out.
\<close>

record pool_manager =
  pool_configs :: "pool_config list"
  current_pool_index :: nat
  current_pool :: string
  pool_conn :: "nat option"
  pool_fd :: int
  connected :: bool
  authenticated :: bool
  subscribed :: bool
  pool_job :: job
  pool_has_job :: bool
  share_to_worker :: "(int \<times> string) list"
  next_id :: int
  reconnect_attempts :: nat

record pool_world = loop +
  pool :: pool_manager

text \<open>The callbacks the owner installs.\<close>

record 'w pool_callbacks =
  job_cb :: "(job \<Rightarrow> ('w, unit) M) option"
  share_response_cb :: "(string \<Rightarrow> bool \<Rightarrow> string \<Rightarrow> ('w, unit) M) option"
  pool_state_cb :: "(string \<Rightarrow> bool \<Rightarrow> ('w, unit) M) option"

definition max_reconnect_attempts :: nat where
  "max_reconnect_attempts = 5"

definition reconnect_delay_ms :: "64 word" where
  "reconnect_delay_ms = 5000"

definition get_pool :: "(pool_manager \<Rightarrow> 'a) \<Rightarrow> ('z pool_world_scheme, 'a) M" where
  "get_pool f = mget (\<lambda>w. f (pool w))"

definition set_pool :: "(pool_manager \<Rightarrow> pool_manager) \<Rightarrow> ('z pool_world_scheme, unit) M" where
  "set_pool f = mmodify (\<lambda>w. w\<lparr>pool := f (pool w)\<rparr>)"

text \<open>The constructor.  The members of \<open>current_job_\<close> without a default are indeterminate.\<close>

definition new_pool_manager :: "garbage \<Rightarrow> pool_config list \<Rightarrow> pool_manager" where
  "new_pool_manager g ps =
     \<lparr>pool_configs = ps, current_pool_index = 0,
      current_pool = (case ps of [] \<Rightarrow> [] | p # _ \<Rightarrow> pool_name p),
      pool_conn = None, pool_fd = -1, connected = False, authenticated = False, subscribed = False,
      pool_job = empty_job\<lparr>height := any_u64 g, clean_jobs := any_bool g\<rparr>, pool_has_job = False,
      share_to_worker = [], next_id = 1, reconnect_attempts = 0\<rparr>"

text \<open>\<open>return next_id_++\<close>, undefined when the counter is the largest \<open>int\<close>.\<close>

definition int_max :: int where
  "int_max = 2147483647"

definition get_next_id :: "('z pool_world_scheme, int) M" where
  "get_next_id =
     mbind (get_pool next_id) (\<lambda>i.
     if i \<ge> int_max then mfail Undefined
     else mthen (set_pool (\<lambda>p. p\<lparr>next_id := i + 1\<rparr>)) (mret i))"

text \<open>\<open>pools_[i]\<close>.\<close>

definition pool_at :: "nat \<Rightarrow> ('z pool_world_scheme, pool_config) M" where
  "pool_at i =
     mbind (get_pool pool_configs) (\<lambda>ps. if i < length ps then mret (ps ! i) else mfail Undefined)"

section \<open>Connecting\<close>

text \<open>
  \<open>try_connect_pool\<close> on the pools from \<open>i\<close> on: the first one a connection can be made for is used.
  While \<open>connect_to_pool\<close> runs, the new connection has no callback, so the state handler it gets is
  never invoked.
\<close>

definition no_callback :: "'w state_handler" where
  "no_callback = (\<lambda>cb s. mret ())"

fun try_connect_from :: "env \<Rightarrow> nat \<Rightarrow> pool_config list \<Rightarrow> ('z pool_world_scheme, unit) M" where
  "try_connect_from E i [] = mret ()"
| "try_connect_from E i (p # ps) =
     mthen (set_pool (\<lambda>pm. pm\<lparr>current_pool_index := i, current_pool := pool_name p\<rparr>))
     (mbind (connect_to_pool E no_callback (pool_host p) (pool_port p) (''pool:'' @ pool_name p)) (\<lambda>r.
      case r of
        None \<Rightarrow> try_connect_from E (i + 1) ps
      | Some a \<Rightarrow>
          mthen (set_state_callback a Pool_closure)
          (mthen (set_message_callback a Pool_closure)
          (mbind (deref a) (\<lambda>c.
           mthen (set_pool (\<lambda>pm. pm\<lparr>pool_fd := fd c, pool_conn := Some a\<rparr>))
                 (add_connection a))))))"

definition try_connect_pool :: "env \<Rightarrow> nat \<Rightarrow> ('z pool_world_scheme, unit) M" where
  "try_connect_pool E i =
     mbind (get_pool pool_configs) (\<lambda>ps. try_connect_from E i (drop i ps))"

definition pool_start :: "env \<Rightarrow> ('z pool_world_scheme, unit) M" where
  "pool_start E =
     mbind (get_pool pool_configs) (\<lambda>ps. if ps = [] then mret () else try_connect_pool E 0)"

text \<open>\<open>loop_.get_connection(pool_conn_ ? pool_fd_ : -1)\<close>.\<close>

definition pool_connection :: "('z pool_world_scheme, nat option) M" where
  "pool_connection =
     mbind (get_pool (\<lambda>p. if pool_conn p = None then -1 else pool_fd p)) get_connection"

section \<open>Messages to the pool\<close>

definition login_message :: "pool_config \<Rightarrow> int \<Rightarrow> string" where
  "login_message p i =
     ''{\"method\":\"login\",\"params\":{\"login\":\"'' @ pool_wallet p @
     ''\",\"pass\":\"'' @ pool_password p @
     ''\",\"agent\":\"gpu-proxy/2.0\"},\"id\":'' @ show_int i @ ''}''"

definition submit_message :: "int \<Rightarrow> string \<Rightarrow> string \<Rightarrow> string \<Rightarrow> string \<Rightarrow> string" where
  "submit_message i worker_id job nonce res =
     ''{\"id\": '' @ show_int i @
     '', \"method\": \"submit\", \"params\": {\"id\": \"'' @ worker_id @
     ''\", \"job_id\": \"'' @ job @
     ''\", \"nonce\": \"'' @ nonce @
     ''\", \"result\": \"'' @ res @
     ''\"}, \"jsonrpc\": \"2.0\"}''"

definition send_login :: "env \<Rightarrow> ('z pool_world_scheme, unit) M" where
  "send_login E =
     mbind (get_pool current_pool_index) (\<lambda>i.
     mbind (pool_at i) (\<lambda>p.
     mbind get_next_id (\<lambda>n.
     mbind pool_connection (\<lambda>r.
     case r of None \<Rightarrow> mret ()
     | Some a \<Rightarrow> mbind (send_line E a (login_message p n)) (\<lambda>_. mret ())))))"

definition submit_share ::
    "env \<Rightarrow> string \<Rightarrow> string \<Rightarrow> string \<Rightarrow> string \<Rightarrow> ('z pool_world_scheme, unit) M" where
  "submit_share E worker_id job nonce res =
     mbind (get_pool (\<lambda>p. \<not> connected p \<or> \<not> pool_has_job p)) (\<lambda>refuse.
     if refuse then mret ()
     else
       mbind get_next_id (\<lambda>n.
       mthen (set_pool (\<lambda>p. p\<lparr>share_to_worker := AList.update n worker_id (share_to_worker p)\<rparr>))
       (mbind (get_pool current_pool_index) (\<lambda>i.
        mbind (pool_at i) (\<lambda>_.
        mbind pool_connection (\<lambda>r.
        case r of None \<Rightarrow> mret ()
        | Some a \<Rightarrow> mbind (send_line E a (submit_message n worker_id job nonce res)) (\<lambda>_. mret ())))))))"

section \<open>Changes of the connection's state\<close>

definition notify_pool_state ::
    "('z pool_world_scheme) pool_callbacks \<Rightarrow> bool \<Rightarrow> ('z pool_world_scheme, unit) M" where
  "notify_pool_state cbs b =
     (case pool_state_cb cbs of
        None \<Rightarrow> mret ()
      | Some cb \<Rightarrow> mbind (get_pool current_pool) (\<lambda>name. cb name b))"

definition pool_lost ::
    "env \<Rightarrow> ('z pool_world_scheme) pool_callbacks \<Rightarrow> ('z pool_world_scheme, unit) M" where
  "pool_lost E cbs =
     mthen (set_pool (\<lambda>p. p\<lparr>connected := False, authenticated := False, subscribed := False,
                             pool_has_job := False\<rparr>))
     (mthen (notify_pool_state cbs False)
     (mbind (get_pool (\<lambda>p. reconnect_attempts p < max_reconnect_attempts)) (\<lambda>retry.
      if retry
      then mthen (set_pool (\<lambda>p. p\<lparr>reconnect_attempts := reconnect_attempts p + 1\<rparr>))
                 (set_timeout E reconnect_delay_ms Reconnect_timer False)
      else mthen (set_pool (\<lambda>p. p\<lparr>reconnect_attempts := 0\<rparr>))
           (mbind (get_pool pool_configs) (\<lambda>ps.
            if ps = [] then mfail Undefined
            else mbind (get_pool current_pool_index) (\<lambda>i.
                 try_connect_pool E ((i + 1) mod length ps)))))))"

fun on_pool_state ::
    "env \<Rightarrow> ('z pool_world_scheme) pool_callbacks \<Rightarrow> connection_state \<Rightarrow> ('z pool_world_scheme, unit) M"
  where
  "on_pool_state E cbs CONNECTED = send_login E"
| "on_pool_state E cbs AUTHENTICATED =
     mthen (set_pool (\<lambda>p. p\<lparr>authenticated := True, connected := True, reconnect_attempts := 0\<rparr>))
           (notify_pool_state cbs True)"
| "on_pool_state E cbs ERROR = pool_lost E cbs"
| "on_pool_state E cbs DISCONNECTED = pool_lost E cbs"
| "on_pool_state E cbs CONNECTING = mret ()"

section \<open>Messages from the pool\<close>

definition distribute_job ::
    "('z pool_world_scheme) pool_callbacks \<Rightarrow> ('z pool_world_scheme, unit) M" where
  "distribute_job cbs =
     (case job_cb cbs of None \<Rightarrow> mret () | Some cb \<Rightarrow> mbind (get_pool pool_job) cb)"

text \<open>\<open>current_job_.x = j[k]\<close>: index, convert, assign.\<close>

definition assign_job ::
    "'j result \<Rightarrow> ('j \<Rightarrow> 'a result) \<Rightarrow> ('a \<Rightarrow> job \<Rightarrow> job) \<Rightarrow> ('z pool_world_scheme, unit) M" where
  "assign_job r conv f =
     mbind (mlift r) (\<lambda>v.
     mbind (mlift (conv v)) (\<lambda>x. set_pool (\<lambda>p. p\<lparr>pool_job := f x (pool_job p)\<rparr>)))"

text \<open>
  The job in the response to a login; \<open>j\<close> is a mutable copy, so an absent target reads as null, whose
  conversion throws.
\<close>

definition accept_login_job ::
    "'j json_lib \<Rightarrow> env \<Rightarrow> ('z pool_world_scheme) pool_callbacks \<Rightarrow> 'j \<Rightarrow> ('z pool_world_scheme, unit) M"
  where
  "accept_login_job J E cbs j =
     mthen (assign_job (json_key_mut J j ''job_id'') (json_string J) (\<lambda>x. job_id_update (\<lambda>_. x)))
     (mthen (assign_job (json_key_mut J j ''blob'') (json_string J) (\<lambda>x. blob_update (\<lambda>_. x)))
     (mthen (assign_job (json_key_mut J j ''target'') (json_string J) (\<lambda>x. target_update (\<lambda>_. x)))
     (mthen (mwhen (json_contains J j ''height'')
               (assign_job (json_key_mut J j ''height'') (json_u64 J) (\<lambda>x. height_update (\<lambda>_. x))))
     (mthen (set_pool (\<lambda>p. p\<lparr>pool_has_job := True\<rparr>))
     (mthen (on_pool_state E cbs AUTHENTICATED)
            (distribute_job cbs))))))"

definition route_share_response ::
    "'j json_lib \<Rightarrow> ('z pool_world_scheme) pool_callbacks \<Rightarrow> 'j stratum_response \<Rightarrow>
     ('z pool_world_scheme, unit) M" where
  "route_share_response J cbs resp =
     mbind (get_pool authenticated) (\<lambda>auth.
     case share_response_cb cbs of
       None \<Rightarrow> mret ()
     | Some cb \<Rightarrow>
         if \<not> auth then mret ()
         else
           let accepted = (json_is_null J (resp_error resp) \<or> json_empty J (resp_error resp)) in
           mbind (if json_is_string J (resp_error resp) then mlift (json_string J (resp_error resp))
                  else mret []) (\<lambda>error_str.
           mbind (get_pool (\<lambda>p. map_of (share_to_worker p) (resp_id resp))) (\<lambda>found.
           case found of
             None \<Rightarrow> mret ()
           | Some worker_id \<Rightarrow>
               mthen (cb worker_id accepted error_str)
                     (set_pool (\<lambda>p. p\<lparr>share_to_worker :=
                        AList.delete (resp_id resp) (share_to_worker p)\<rparr>)))))"

definition check_status ::
    "'j json_lib \<Rightarrow> env \<Rightarrow> ('z pool_world_scheme) pool_callbacks \<Rightarrow> 'j stratum_response \<Rightarrow>
     ('z pool_world_scheme, unit) M" where
  "check_status J E cbs resp =
     mbind (get_pool authenticated) (\<lambda>auth.
     if \<not> auth \<and> json_contains J (resp_result resp) ''status''
     then mbind (mlift (json_key J (resp_result resp) ''status'')) (\<lambda>v.
          mbind (mlift (json_string J v)) (\<lambda>status.
          if status = ''OK''
          then mthen (set_pool (\<lambda>p. p\<lparr>authenticated := True, connected := True\<rparr>))
                     (on_pool_state E cbs AUTHENTICATED)
          else on_pool_state E cbs ERROR))
     else route_share_response J cbs resp)"

definition handle_response ::
    "'j json_lib \<Rightarrow> env \<Rightarrow> ('z pool_world_scheme) pool_callbacks \<Rightarrow> 'j stratum_response \<Rightarrow>
     ('z pool_world_scheme, unit) M" where
  "handle_response J E cbs resp =
     (if \<not> json_is_object J (resp_result resp) \<or> json_empty J (resp_result resp) then mret ()
      else
        mbind (get_pool authenticated) (\<lambda>auth.
        if \<not> auth \<and> json_contains J (resp_result resp) ''job''
        then mthen (set_pool (\<lambda>p. p\<lparr>authenticated := True, connected := True, subscribed := True\<rparr>))
             (mbind (mlift (json_key J (resp_result resp) ''job'')) (\<lambda>j.
              if json_contains J j ''job_id'' \<and> json_contains J j ''blob''
              then accept_login_job J E cbs j
              else check_status J E cbs resp))
        else check_status J E cbs resp))"

text \<open>
  A notification.  Here the parameters are read through a constant reference: a job without a target
  or a height violates the precondition of the index.
\<close>

definition handle_notification ::
    "'j json_lib \<Rightarrow> ('z pool_world_scheme) pool_callbacks \<Rightarrow> 'j stratum_request \<Rightarrow>
     ('z pool_world_scheme, unit) M" where
  "handle_notification J cbs req =
     (if req_method req = NOTIFY
      then mbind (mlift (from_notify J (req_params req))) (\<lambda>job.
           mthen (set_pool (\<lambda>p. p\<lparr>pool_job := job, pool_has_job := True\<rparr>))
                 (distribute_job cbs))
      else if req_method req = JOB
      then let j = req_params req in
           mwhen (json_contains J j ''job_id'' \<and> json_contains J j ''blob'')
             (mthen (assign_job (json_key J j ''job_id'') (json_string J) (\<lambda>x. job_id_update (\<lambda>_. x)))
             (mthen (assign_job (json_key J j ''blob'') (json_string J) (\<lambda>x. blob_update (\<lambda>_. x)))
             (mthen (assign_job (json_key J j ''target'') (json_string J) (\<lambda>x. target_update (\<lambda>_. x)))
             (mthen (assign_job (json_key J j ''height'') (json_u64 J) (\<lambda>x. height_update (\<lambda>_. x)))
             (mthen (set_pool (\<lambda>p. p\<lparr>pool_has_job := True\<rparr>))
                    (distribute_job cbs))))))
      else mret ())"

definition read_response ::
    "'j json_lib \<Rightarrow> garbage \<Rightarrow> 'j \<Rightarrow> 'j stratum_response result" where
  "read_response J g j =
     rbind (if json_contains J j ''id''
            then rbind (json_key_mut J j ''id'') (json_int J) else Inr (any_int g)) (\<lambda>i.
     rbind (if json_contains J j ''result'' then json_key_mut J j ''result''
            else Inr (json_null J)) (\<lambda>r.
     rbind (if json_contains J j ''error'' then json_key_mut J j ''error''
            else Inr (json_null J)) (\<lambda>e.
     Inr \<lparr>resp_id = i, resp_result = r, resp_error = e\<rparr>)))"

definition on_pool_message ::
    "'j json_lib \<Rightarrow> env \<Rightarrow> ('z pool_world_scheme) pool_callbacks \<Rightarrow> string \<Rightarrow>
     ('z pool_world_scheme, unit) M" where
  "on_pool_message J E cbs line =
     mcatch
       (mbind (mlift (json_parse J line)) (\<lambda>j.
        mbind (ask (\<lambda>n. memory E n)) (\<lambda>g.
        if json_contains J j ''method''
        then mbind (mlift (stratum_parse J g line)) (\<lambda>req.
             mwhen (req_method req = NOTIFY \<or> req_method req = JOB) (handle_notification J cbs req))
        else mbind (mlift (read_response J g j)) (handle_response J E cbs))))
       (mret ())"

section \<open>What the pool manager keeps true\<close>

text \<open>
  Ids are given out upwards from 1, so every share in flight has an id below the next one and no id
  is used twice; the index of the current pool is in range; the number of attempts is bounded.
\<close>

definition pool_ok :: "pool_manager \<Rightarrow> bool" where
  "pool_ok p \<longleftrightarrow>
     1 \<le> next_id p \<and> next_id p \<le> int_max \<and>
     distinct (map fst (share_to_worker p)) \<and>
     (\<forall>i \<in> fst ` set (share_to_worker p). 1 \<le> i \<and> i < next_id p) \<and>
     (pool_configs p \<noteq> [] \<longrightarrow> current_pool_index p < length (pool_configs p)) \<and>
     reconnect_attempts p \<le> max_reconnect_attempts"

lemma new_pool_manager_ok: "pool_ok (new_pool_manager g ps)"
  by (simp add: pool_ok_def new_pool_manager_def int_max_def)

lemma get_pool_apply [simp]: "get_pool f w = (Inr (f (pool w)), w)"
  by (simp add: get_pool_def)

lemma mbind_get_pool [simp]: "mbind (get_pool f) g w = g (f (pool w)) w"
  by (simp add: mbind_def)

lemma set_pool_apply [simp]: "set_pool f w = (Inr (), w\<lparr>pool := f (pool w)\<rparr>)"
  by (simp add: set_pool_def)

lemma get_next_id_apply:
  "get_next_id w =
     (if next_id (pool w) \<ge> int_max then (Inl Undefined, w)
      else (Inr (next_id (pool w)), w\<lparr>pool := (pool w)\<lparr>next_id := next_id (pool w) + 1\<rparr>\<rparr>))"
  by (simp add: get_next_id_def)

lemma pool_at_apply [simp]:
  "pool_at i w = (if i < length (pool_configs (pool w)) then Inr (pool_configs (pool w) ! i)
                  else Inl Undefined, w)"
  by (simp add: pool_at_def)

lemma pool_frames [frame]:
  "keeps f (get_pool g)" "keeps f (pool_at i)" "invar I (get_pool g)" "invar I (pool_at i)"
  "keeps heap (set_pool u)" "keeps next_addr (set_pool u)" "keeps connections (set_pool u)"
  "keeps timeouts (set_pool u)" "keeps running (set_pool u)"
  by (simp_all add: keeps_def invar_def)

lemma pool_safe [safe]: "only_fails S (get_pool g)" "only_fails S (set_pool u)"
  by (simp_all add: get_pool_def set_pool_def only_fails_mget only_fails_mmodify)

lemma pool_ok_reserve:
  assumes "pool_ok p" and "next_id p < int_max"
  shows "pool_ok (p\<lparr>next_id := next_id p + 1\<rparr>)"
    and "pool_ok (p\<lparr>next_id := next_id p + 1,
                     share_to_worker := AList.update (next_id p) worker (share_to_worker p)\<rparr>)"
  using assms by (auto simp: pool_ok_def dom_update distinct_update)

lemma pool_ok_forget: "pool_ok p \<Longrightarrow> pool_ok (p\<lparr>share_to_worker := AList.delete i (share_to_worker p)\<rparr>)"
  by (auto simp: pool_ok_def AList.delete_eq distinct_map_filter)

section \<open>Trying the pools\<close>

text \<open>The object of a connection to a pool once its callbacks are installed.\<close>

definition pool_object :: "connection \<Rightarrow> bool" where
  "pool_object c \<longleftrightarrow> pimpl c \<noteq> None \<and> ctype c = POOL \<and> message_cb c = Some Pool_closure \<and>
     state_cb c = Some Pool_closure"

definition pool_connection_object :: "int \<Rightarrow> pool_config \<Rightarrow> connection" where
  "pool_connection_object f p = (outgoing f (pool_host p) (''pool:'' @ pool_name p))
     \<lparr>state_cb := Some Pool_closure, message_cb := Some Pool_closure\<rparr>"

lemma pool_connection_object [simp]:
  "pool_object (pool_connection_object f p)" "fd (pool_connection_object f p) = f"
  by (simp_all add: pool_object_def pool_connection_object_def outgoing_def fresh_connection_def)

abbreviation at_pool :: "nat \<Rightarrow> pool_config \<Rightarrow> pool_manager \<Rightarrow> pool_manager" where
  "at_pool i p pm \<equiv> pm\<lparr>current_pool_index := i, current_pool := pool_name p\<rparr>"

text \<open>One pool: either nothing is left of the attempt, or the loop has one new connection.\<close>

lemma try_connect_step:
  assumes "environment E" and "loop_wf w"
  obtains
    (failed) n es m where "next_addr w \<le> m"
      "try_connect_from E i (p # ps) w = try_connect_from E (i + 1) ps
         (w\<lparr>pool := at_pool i p (pool w), ticks := n, effects := es, next_addr := m\<rparr>)"
  | (made) f n where "0 \<le> f" "f \<notin> set (open_fds w)"
      "try_connect_from E i (p # ps) w = (Inr (), with_connection f (pool_connection_object f p)
         (w\<lparr>ticks := n, pool := (at_pool i p (pool w))\<lparr>pool_fd := f, pool_conn := Some (next_addr w)\<rparr>\<rparr>))"
proof -
  let ?w = "w\<lparr>pool := at_pool i p (pool w)\<rparr>"
  have h: "\<forall>b \<ge> next_addr ?w. heap ?w b = None" using assms(2) by (simp add: loop_wf_def heap_wf_def)
  from assms(1) h show thesis
  proof (cases rule: connect_to_pool_cases [where on_state = no_callback and host = "pool_host p"
        and port = "pool_port p" and name = "''pool:'' @ pool_name p"])
    case (none w')
    have "w' = ?w\<lparr>ticks := ticks w', effects := effects w', next_addr := next_addr w'\<rparr>"
      using none(2,3,5) by (cases w'; cases w) simp
    with none show thesis
      by (intro failed [of "next_addr w'" "effects w'" "ticks w'"]) simp_all
  next
    case (some f w')
    obtain n where w': "w' = ?w\<lparr>ticks := n, heap := (heap w)(next_addr w \<mapsto>
          outgoing f (pool_host p) (''pool:'' @ pool_name p)),
        next_addr := Suc (next_addr w), open_fds := f # open_fds w\<rparr>"
      using some by (cases w'; cases w) simp
    have "fd (outgoing f (pool_host p) (''pool:'' @ pool_name p)) = f"
      by (simp add: outgoing_def fresh_connection_def)
    then have "try_connect_from E i (p # ps) w = (Inr (), with_connection f (pool_connection_object f p)
         (w\<lparr>ticks := n, pool := (at_pool i p (pool w))\<lparr>pool_fd := f, pool_conn := Some (next_addr w)\<rparr>\<rparr>))"
      using some(1) loop_wf_closed [OF assms(2), of f] some(3)
      by (simp add: set_state_callback_def set_message_callback_def pool_connection_object_def
          with_connection_def w' add_connection_new)
    with some show thesis by (intro made [of f n]) simp_all
  qed
qed

text \<open>
  All of them: either every attempt failed and the loop has what it had, or the loop has exactly one
  new connection, to the pool at which the manager's index then stands.
\<close>

lemma try_connect_result:
  assumes "environment E" and "loop_wf w"
  obtains
    (none) n es m q where "next_addr w \<le> m"
      "try_connect_from E i ps w = (Inr (), w\<lparr>ticks := n, effects := es, next_addr := m, pool := q\<rparr>)"
      "q = (if ps = [] then pool w else at_pool (i + length ps - 1) (last ps) (pool w))"
  | (one) n es m k f where "next_addr w \<le> m" "k < length ps" "0 \<le> f" "f \<notin> set (open_fds w)"
      "try_connect_from E i ps w = (Inr (), with_connection f (pool_connection_object f (ps ! k))
         (w\<lparr>ticks := n, effects := es, next_addr := m,
            pool := (at_pool (i + k) (ps ! k) (pool w))\<lparr>pool_fd := f, pool_conn := Some m\<rparr>\<rparr>))"
proof -
  have "(\<exists>n es m q. next_addr w \<le> m \<and>
      try_connect_from E i ps w = (Inr (), w\<lparr>ticks := n, effects := es, next_addr := m, pool := q\<rparr>) \<and>
      q = (if ps = [] then pool w else at_pool (i + length ps - 1) (last ps) (pool w))) \<or>
    (\<exists>n es m k f. next_addr w \<le> m \<and> k < length ps \<and> 0 \<le> f \<and> f \<notin> set (open_fds w) \<and>
      try_connect_from E i ps w = (Inr (), with_connection f (pool_connection_object f (ps ! k))
         (w\<lparr>ticks := n, effects := es, next_addr := m,
            pool := (at_pool (i + k) (ps ! k) (pool w))\<lparr>pool_fd := f, pool_conn := Some m\<rparr>\<rparr>)))"
    using assms(2)
  proof (induction ps arbitrary: i w)
    case Nil
    have "w = w\<lparr>ticks := ticks w, effects := effects w, next_addr := next_addr w, pool := pool w\<rparr>" by simp
    then show ?case
      by (intro disjI1 exI [of _ "ticks w"] exI [of _ "effects w"] exI [of _ "next_addr w"]
          exI [of _ "pool w"]) simp
  next
    case (Cons p ps)
    from assms(1) Cons.prems show ?case
    proof (cases rule: try_connect_step [where i = i and p = p and ps = ps])
      case (failed n es m)
      let ?w = "w\<lparr>pool := at_pool i p (pool w), ticks := n, effects := es, next_addr := m\<rparr>"
      have wf: "loop_wf ?w"
        using Cons.prems failed(1) by (simp add: loop_wf_def heap_wf_def table_wf_def)
      from Cons.IH [OF this, of "i + 1"] show ?thesis
      proof (elim disjE exE conjE)
        fix n' es' m' q
        assume "next_addr ?w \<le> m'" and "q = (if ps = [] then pool ?w
              else at_pool (i + 1 + length ps - 1) (last ps) (pool ?w))"
          and "try_connect_from E (i + 1) ps ?w =
             (Inr (), ?w\<lparr>ticks := n', effects := es', next_addr := m', pool := q\<rparr>)"
        with failed show ?thesis
          by (intro disjI1 exI [of _ n'] exI [of _ es'] exI [of _ m'] exI [of _ q]) auto
      next
        fix n' es' m' k f
        assume "next_addr ?w \<le> m'" and "k < length ps" and "0 \<le> f" and "f \<notin> set (open_fds ?w)"
          and "try_connect_from E (i + 1) ps ?w =
             (Inr (), with_connection f (pool_connection_object f (ps ! k))
               (?w\<lparr>ticks := n', effects := es', next_addr := m', pool :=
                  (at_pool (i + 1 + k) (ps ! k) (pool ?w))\<lparr>pool_fd := f, pool_conn := Some m'\<rparr>\<rparr>))"
        with failed show ?thesis
          by (intro disjI2 exI [of _ n'] exI [of _ es'] exI [of _ m'] exI [of _ "Suc k"] exI [of _ f]) simp
      qed
    next
      case (made f n)
      then show ?thesis
        by (intro disjI2 exI [of _ n] exI [of _ "effects w"] exI [of _ "next_addr w"]
            exI [of _ 0] exI [of _ f]) simp
    qed
  qed
  with that show thesis by blast
qed

section \<open>Invariants through the pool manager\<close>

text \<open>
  What the pool manager asks of its owner: an invariant of the world that leaves the manager free to
  change its own state within \<open>pool_ok\<close>, to set timers and to add pool connections to the loop, and
  callbacks that keep it and leave the connections and their unread input in place.
\<close>

locale pool_owner = local_invariant I
  for I :: "'z pool_world_scheme \<Rightarrow> bool" +
  fixes E :: env and cbs :: "('z pool_world_scheme) pool_callbacks"
  assumes I_environment: "environment E"
    and I_loop: "I w \<Longrightarrow> loop_wf w"
    and I_pool: "I w \<Longrightarrow> pool_ok (pool w)"
    and I_set_pool: "I w \<Longrightarrow> pool_ok p \<Longrightarrow> pool_conn p = pool_conn (pool w) \<Longrightarrow>
      pool_fd p = pool_fd (pool w) \<Longrightarrow> I (w\<lparr>pool := p\<rparr>)"
    and I_alloc: "I w \<Longrightarrow> next_addr w \<le> n \<Longrightarrow> I (w\<lparr>next_addr := n\<rparr>)"
    and I_timer: "I w \<Longrightarrow> I (w\<lparr>timeouts := timeouts w @ [t]\<rparr>)"
    and I_connect: "I w \<Longrightarrow> 0 \<le> f \<Longrightarrow> f \<notin> set (open_fds w) \<Longrightarrow> pool_object c \<Longrightarrow> fd c = f \<Longrightarrow>
      pool_ok p \<Longrightarrow> pool_conn p = Some (next_addr w) \<Longrightarrow> pool_fd p = f \<Longrightarrow>
      I (with_connection f c (w\<lparr>pool := p\<rparr>))"
    and job_invar: "job_cb cbs = Some g \<Longrightarrow> invar (\<lambda>w. I w \<and> holds a k s w) (g j)"
    and share_invar: "share_response_cb cbs = Some h \<Longrightarrow>
      invar (\<lambda>w. I w \<and> holds a k s w) (h worker ok err)"
    and pool_state_invar: "pool_state_cb cbs = Some d \<Longrightarrow>
      invar (\<lambda>w. I w \<and> holds a k s w) (d name b)"
begin

lemma set_pool_invar:
  assumes "\<And>p. pool_ok p \<Longrightarrow> pool_ok (u p) \<and> pool_conn (u p) = pool_conn p \<and> pool_fd (u p) = pool_fd p"
  shows "invar (\<lambda>w. I w \<and> holds a k s w) (set_pool u)"
  using assms I_pool I_set_pool by (auto simp: invar_def holds_def)

lemma send_line_I: "invar (\<lambda>w. I w \<and> holds a k s w) (send_line E b line)"
  unfolding send_line_def Let_def mark_for_closing_def
  by (auto intro!: frame both_prims both_update simp: evolves_defs split: prod.splits)

lemma get_next_id_invar: "invar (\<lambda>w. I w \<and> holds a k s w) get_next_id"
  using I_pool I_set_pool pool_ok_reserve(1)
  by (auto simp: invar_def get_next_id_apply holds_def not_le)

lemma pool_connection_invar: "invar (\<lambda>w. I w \<and> holds a k s w) pool_connection"
  unfolding pool_connection_def get_connection_def by (intro frame)

lemma add_timer_invar: "invar (\<lambda>w. I w \<and> holds a k s w) (mmodify (\<lambda>w. w\<lparr>timeouts := timeouts w @ [t]\<rparr>))"
  by (auto intro!: invar_mmodify I_timer simp: holds_def)

lemma set_timeout_invar: "invar (\<lambda>w. I w \<and> holds a k s w) (set_timeout E n cb rec)"
  unfolding set_timeout_def now_ms_def
  by (auto intro!: frame both_prims add_timer_invar split: prod.splits)

lemma send_login_invar: "invar (\<lambda>w. I w \<and> holds a k s w) (send_login E)"
  unfolding send_login_def by (intro frame get_next_id_invar pool_connection_invar send_line_I)

lemma submit_share_invar: "invar (\<lambda>w. I w \<and> holds a k s w) (submit_share E worker j n r)"
proof -
  define send :: "int \<Rightarrow> ('z pool_world_scheme, unit) M" where "send = (\<lambda>i.
    mbind (get_pool current_pool_index) (\<lambda>k. mbind (pool_at k) (\<lambda>_. mbind pool_connection (\<lambda>q.
      case q of None \<Rightarrow> mret ()
      | Some b \<Rightarrow> mbind (send_line E b (submit_message i worker j n r)) (\<lambda>_. mret ())))))"
  have send: "invar (\<lambda>w. I w \<and> holds a k s w) (send i)" for i
    unfolding send_def by (intro frame pool_connection_invar send_line_I)
  have "I (snd (submit_share E worker j n r w)) \<and> holds a k s (snd (submit_share E worker j n r w))"
    if w: "I w" "holds a k s w" for w
  proof (cases "connected (pool w) \<and> pool_has_job (pool w) \<and> next_id (pool w) < int_max")
    case False
    with w show ?thesis by (auto simp: submit_share_def get_next_id_apply not_less)
  next
    case True
    let ?i = "next_id (pool w)"
    let ?w = "w\<lparr>pool := (pool w)\<lparr>next_id := ?i + 1,
       share_to_worker := AList.update ?i worker (share_to_worker (pool w))\<rparr>\<rparr>"
    have "I ?w"
      using w(1) True by (intro I_set_pool pool_ok_reserve(2) I_pool) simp_all
    moreover have "holds a k s ?w" using w(2) by (simp add: holds_def)
    moreover have "submit_share E worker j n r w = send ?i ?w"
      using True by (simp add: submit_share_def get_next_id_apply send_def)
    ultimately show ?thesis using send [of ?i] unfolding invar_def by metis
  qed
  then show ?thesis unfolding invar_def by blast
qed

lemma try_connect_pool_reaches:
  assumes "I w"
  shows "I (snd (try_connect_pool E i w)) \<and>
    (\<forall>a k s. holds a k s w \<longrightarrow> holds a k s (snd (try_connect_pool E i w)))"
proof -
  let ?ps = "drop i (pool_configs (pool w))"
  have t: "try_connect_pool E i w = try_connect_from E i ?ps w" by (simp add: try_connect_pool_def)
  from I_environment I_loop [OF assms] show ?thesis
  proof (cases rule: try_connect_result [where i = i and ps = ?ps])
    case (none n es m q)
    have "pool_ok q"
      using I_pool [OF assms] none(3) by (auto simp: pool_ok_def)
    then have "I (w\<lparr>ticks := n, effects := es, next_addr := m, pool := q\<rparr>)"
      using none(1,3) assms by (intro I_set_pool I_alloc W_ticks W_effects) (auto split: if_splits)
    with none show ?thesis by (auto simp: t holds_def)
  next
    case (one n es m k' f)
    let ?q = "(at_pool (i + k') (?ps ! k') (pool w))\<lparr>pool_fd := f, pool_conn := Some m\<rparr>"
    let ?w = "w\<lparr>ticks := n, effects := es, next_addr := m\<rparr>"
    have I: "I ?w" using one(1) assms by (intro I_alloc W_ticks W_effects) auto
    have "pool_ok ?q" using I_pool [OF assms] one(2) by (auto simp: pool_ok_def)
    then have "I (with_connection f (pool_connection_object f (?ps ! k')) (?w\<lparr>pool := ?q\<rparr>))"
      using I one(3,4) by (intro I_connect) simp_all
    with one show ?thesis by (auto simp: t holds_def with_connection_def)
  qed
qed

lemma try_connect_pool_invar:
  "invar I (try_connect_pool E i)" "invar (\<lambda>w. I w \<and> holds a k s w) (try_connect_pool E i)"
  using try_connect_pool_reaches unfolding invar_def by blast+

lemma notify_invar: "invar (\<lambda>w. I w \<and> holds a k s w) (notify_pool_state cbs b)"
proof (cases "pool_state_cb cbs")
  case (Some d)
  then show ?thesis by (simp only: notify_pool_state_def option.case) (intro frame pool_state_invar [OF Some])
qed (simp add: frame notify_pool_state_def)

lemma pool_lost_invar: "invar (\<lambda>w. I w \<and> holds a k s w) (pool_lost E cbs)"
proof -
  define next_try :: "('z pool_world_scheme, unit) M" where "next_try =
    mthen (set_pool (\<lambda>p. p\<lparr>reconnect_attempts := 0\<rparr>)) (mbind (get_pool pool_configs) (\<lambda>ps.
      if ps = [] then mfail Undefined
      else mbind (get_pool current_pool_index) (\<lambda>i. try_connect_pool E ((i + 1) mod length ps))))"
  have next_try: "invar (\<lambda>w. I w \<and> holds a k s w) next_try"
    unfolding next_try_def
    by (intro frame try_connect_pool_invar set_pool_invar) (simp_all add: pool_ok_def)
  have retry: "invar (\<lambda>w. I w \<and> holds a k s w)
    (mbind (get_pool (\<lambda>p. reconnect_attempts p < max_reconnect_attempts)) (\<lambda>retry.
      if retry
      then mthen (set_pool (\<lambda>p. p\<lparr>reconnect_attempts := reconnect_attempts p + 1\<rparr>))
                 (set_timeout E reconnect_delay_ms Reconnect_timer False)
      else next_try))"
  proof -
    have "I (w\<lparr>pool := (pool w)\<lparr>reconnect_attempts := reconnect_attempts (pool w) + 1\<rparr>\<rparr>)"
      if "I w" "reconnect_attempts (pool w) < max_reconnect_attempts" for w
      using that I_pool [OF that(1)] by (intro I_set_pool) (auto simp: pool_ok_def)
    then show ?thesis
      using next_try set_timeout_invar [of a k s reconnect_delay_ms Reconnect_timer False]
      by (auto simp: invar_def holds_def)
  qed
  show ?thesis
    unfolding pool_lost_def next_try_def [symmetric]
    by (intro frame notify_invar retry set_pool_invar) (simp_all add: pool_ok_def)
qed

lemma on_pool_state_invar: "invar (\<lambda>w. I w \<and> holds a k s w) (on_pool_state E cbs st)"
  by (cases st) (auto intro!: frame send_login_invar pool_lost_invar notify_invar set_pool_invar
      simp: pool_ok_def)

lemma distribute_invar: "invar (\<lambda>w. I w \<and> holds a k s w) (distribute_job cbs)"
proof (cases "job_cb cbs")
  case (Some g)
  then show ?thesis by (simp only: distribute_job_def option.case) (intro frame job_invar [OF Some])
qed (simp add: frame distribute_job_def)

lemma assign_job_invar: "invar (\<lambda>w. I w \<and> holds a k s w) (assign_job r conv u)"
  unfolding assign_job_def by (intro frame set_pool_invar) (simp add: pool_ok_def)

lemma route_invar: "invar (\<lambda>w. I w \<and> holds a k s w) (route_share_response J cbs resp)"
proof (cases "share_response_cb cbs")
  case None
  then show ?thesis by (simp only: route_share_response_def Let_def option.case) (intro frame)
next
  case (Some h)
  then show ?thesis
    by (simp only: route_share_response_def Let_def option.case) (intro frame share_invar [OF Some] set_pool_invar, simp_all add: pool_ok_forget)
qed

lemma handle_response_invar: "invar (\<lambda>w. I w \<and> holds a k s w) (handle_response J E cbs resp)"
  unfolding handle_response_def check_status_def accept_login_job_def
  by (intro frame set_pool_invar on_pool_state_invar distribute_invar assign_job_invar route_invar)
    (simp_all add: pool_ok_def)

lemma handle_notification_invar: "invar (\<lambda>w. I w \<and> holds a k s w) (handle_notification J cbs req)"
  unfolding handle_notification_def Let_def
  by (intro frame set_pool_invar distribute_invar assign_job_invar) (simp_all add: pool_ok_def)

lemma on_pool_message_invar: "invar (\<lambda>w. I w \<and> holds a k s w) (on_pool_message J E cbs line)"
  unfolding on_pool_message_def
  by (intro frame both_prims handle_notification_invar handle_response_invar)

end

section \<open>Failures of the pool manager\<close>

definition callbacks_safe :: "('z pool_world_scheme) pool_callbacks \<Rightarrow> bool" where
  "callbacks_safe cbs \<longleftrightarrow>
     (\<forall>g j. job_cb cbs = Some g \<longrightarrow> only_fails {Undefined} (g j)) \<and>
     (\<forall>h x b e. share_response_cb cbs = Some h \<longrightarrow> only_fails {Undefined} (h x b e)) \<and>
     (\<forall>d x b. pool_state_cb cbs = Some d \<longrightarrow> only_fails {Undefined} (d x b))"

lemma connect_to_pool_safe: "only_fails {Undefined} (connect_to_pool E no_callback host port name)"
  unfolding connect_to_pool_def setup_tls_def create_ssl_context_def new_connection_def
    delete_connection_def set_state_def no_callback_def
  by (auto intro!: safe split: prod.splits)

lemma add_connection_safe: "only_fails {Undefined} (add_connection a)"
  unfolding add_connection_def delete_connection_def by (intro safe) auto

lemma try_connect_safe: "only_fails {Undefined} (try_connect_from E i ps)"
proof (induction ps arbitrary: i)
  case Nil
  show ?case unfolding try_connect_from.simps by (rule safe)
next
  case (Cons p ps)
  show ?case
    unfolding try_connect_from.simps set_state_callback_def set_message_callback_def
    by (intro safe connect_to_pool_safe add_connection_safe Cons.IH) auto
qed

lemma try_connect_pool_safe: "only_fails {Undefined} (try_connect_pool E i)"
  unfolding try_connect_pool_def by (intro safe try_connect_safe)

lemma pool_connection_safe: "only_fails {Undefined} pool_connection"
  unfolding pool_connection_def get_connection_def by (intro safe)

lemma pool_at_safe: "only_fails {Undefined} (pool_at i)"
  unfolding pool_at_def by (intro safe) auto

lemma get_next_id_safe: "only_fails {Undefined} get_next_id"
  unfolding get_next_id_def by (intro safe) auto

lemma send_login_safe: "only_fails {Undefined} (send_login E)"
  unfolding send_login_def by (intro safe pool_at_safe get_next_id_safe pool_connection_safe)

lemma submit_share_safe: "only_fails {Undefined} (submit_share E worker j n r)"
  unfolding submit_share_def by (intro safe pool_at_safe get_next_id_safe pool_connection_safe)

lemma set_timeout_safe: "only_fails S (set_timeout E n cb rec)"
  unfolding set_timeout_def now_ms_def by (auto intro!: safe split: prod.splits)

lemma notify_safe: "callbacks_safe cbs \<Longrightarrow> only_fails {Undefined} (notify_pool_state cbs b)"
  unfolding notify_pool_state_def callbacks_safe_def
  by (auto simp del: mbind_get_pool intro!: only_fails_option [where m = "mret ()"] only_fails_mret
      split: option.split intro: only_fails_mbind pool_safe)

lemma pool_lost_safe: "callbacks_safe cbs \<Longrightarrow> only_fails {Undefined} (pool_lost E cbs)"
  unfolding pool_lost_def
  by (intro safe notify_safe set_timeout_safe try_connect_pool_safe) auto

lemma on_pool_state_safe: "callbacks_safe cbs \<Longrightarrow> only_fails {Undefined} (on_pool_state E cbs st)"
  by (cases st) (auto intro!: safe send_login_safe pool_lost_safe notify_safe)

lemma distribute_safe: "callbacks_safe cbs \<Longrightarrow> only_fails {Undefined} (distribute_job cbs)"
  unfolding distribute_job_def callbacks_safe_def
  by (auto simp del: mbind_get_pool intro: safe split: option.split)

context json_library begin

lemma key_fails: "json_key J j k = Inl e \<Longrightarrow> e = Undefined \<or> e = Json_exception"
  using key_present [of j k] key_absent [of j k] key_no_object [of j k] by fastforce

lemma key_mut_fails:
  "json_is_object J j \<Longrightarrow> json_key_mut J j k \<noteq> Inl e"
  using key_mut_of_contains [of j k] key_mut_absent [of j k] by fastforce

lemma lift_fails:
  "only_fails {Undefined, Json_exception} (mlift (json_key J j k))"
  "only_fails {Undefined, Json_exception} (mlift (json_string J j))"
  "only_fails {Undefined, Json_exception} (mlift (json_int J j))"
  "only_fails {Undefined, Json_exception} (mlift (json_u64 J j))"
  "only_fails {Undefined, Json_exception} (mlift (json_parse J s))"
  "only_fails {Undefined, Json_exception} (mlift (from_notify J j))"
  "only_fails {Undefined, Json_exception} (mlift (stratum_parse J g s))"
  "json_is_object J j \<Longrightarrow> only_fails {Undefined, Json_exception} (mlift (json_key_mut J j k))"
  using key_mut_fails stratum_parse_total [of g s]
  by (auto intro!: only_fails_mlift dest: conversions_fail key_fails from_notify_fails)

lemma read_response_fails: "only_fails {Undefined, Json_exception} (mlift (read_response J g j))"
proof (rule only_fails_mlift)
  fix e assume "read_response J g j = Inl e"
  then show "e \<in> {Undefined, Json_exception}"
    using key_mut_of_contains [of j "''id''"] key_mut_of_contains [of j "''result''"]
      key_mut_of_contains [of j "''error''"]
    by (auto simp: read_response_def rbind_eq_Inl dest: conversions_fail split: if_splits)
qed

lemma raise_safe: "only_fails {Undefined} m \<Longrightarrow> only_fails {Undefined, Json_exception} m"
  by (erule only_fails_mono) auto

lemma assign_job_safe:
  assumes "only_fails {Undefined, Json_exception} (mlift r :: ('z pool_world_scheme, 'a) M)"
    and "\<And>v. only_fails {Undefined, Json_exception} (mlift (conv v) :: ('z pool_world_scheme, 'b) M)"
  shows "only_fails {Undefined, Json_exception} (assign_job r conv u :: ('z pool_world_scheme, unit) M)"
  unfolding assign_job_def by (intro safe assms)

lemma accept_login_job_safe:
  assumes "callbacks_safe cbs" and "json_is_object J j"
  shows "only_fails {Undefined, Json_exception} (accept_login_job J E cbs j)"
  unfolding accept_login_job_def
  by (intro safe assign_job_safe lift_fails assms raise_safe [OF on_pool_state_safe]
      raise_safe [OF distribute_safe])

lemma route_safe:
  assumes "callbacks_safe cbs"
  shows "only_fails {Undefined, Json_exception} (route_share_response J cbs resp)"
proof (cases "share_response_cb cbs")
  case None
  then show ?thesis
    by (simp only: route_share_response_def Let_def option.case) (intro safe)
next
  case (Some h)
  then have h: "only_fails {Undefined, Json_exception} (h x b e)" for x b e
    using assms by (intro raise_safe) (simp add: callbacks_safe_def)
  from Some show ?thesis
    by (simp only: route_share_response_def Let_def option.case) (intro safe h lift_fails)
qed

lemma check_status_safe:
  assumes "callbacks_safe cbs"
  shows "only_fails {Undefined, Json_exception} (check_status J E cbs resp)"
  unfolding check_status_def
  by (intro safe lift_fails route_safe raise_safe [OF on_pool_state_safe] assms)

lemma handle_response_safe:
  assumes "callbacks_safe cbs"
  shows "only_fails {Undefined, Json_exception} (handle_response J E cbs resp)"
  unfolding handle_response_def
  by (intro safe lift_fails check_status_safe accept_login_job_safe assms)
    (simp_all add: contains_object [of _ "''job_id''"])

lemma handle_notification_safe:
  assumes "callbacks_safe cbs"
  shows "only_fails {Undefined, Json_exception} (handle_notification J cbs req)"
  unfolding handle_notification_def Let_def
  by (intro safe lift_fails assign_job_safe raise_safe [OF distribute_safe] assms)

text \<open>No exception leaves the handler of the pool's messages.\<close>

lemma on_pool_message_safe:
  assumes "callbacks_safe cbs"
  shows "only_fails {Undefined} (on_pool_message J E cbs line)"
proof -
  have "only_fails {Undefined, Json_exception}
     (mbind (mlift (json_parse J line)) (\<lambda>j.
        mbind (ask (\<lambda>n. memory E n)) (\<lambda>g.
        if json_contains J j ''method''
        then mbind (mlift (stratum_parse J g line)) (\<lambda>req.
             mwhen (req_method req = NOTIFY \<or> req_method req = JOB) (handle_notification J cbs req))
        else mbind (mlift (read_response J g j)) (handle_response J E cbs))))"
    by (intro safe lift_fails read_response_fails handle_notification_safe handle_response_safe assms)
  then show ?thesis
    unfolding on_pool_message_def by (rule only_fails_mcatch) (auto intro: safe)
qed

end

section \<open>Shares and their verdicts\<close>

text \<open>The instance: a proxy logged in to its only pool, on descriptor 5, with a job.\<close>

definition demo_pool_conn :: connection where
  "demo_pool_conn = (pool_connection_object 5 (pool_named ''a''))\<lparr>state := CONNECTED,
     pimpl := Some (fresh_impl\<lparr>ssl := True, ctx := True, tls_handshake_complete := True\<rparr>)\<rparr>"

definition demo_manager :: pool_manager where
  "demo_manager = (new_pool_manager no_garbage [pool_named ''a'', pool_named ''b''])\<lparr>pool_conn := Some 0,
     pool_fd := 5, connected := True, authenticated := True, subscribed := True, pool_has_job := True\<rparr>"

definition demo_pool :: pool_world where
  "demo_pool = \<lparr>heap = [0 \<mapsto> demo_pool_conn], next_addr = 1, open_fds = [5, 0, 1, 2], ticks = 0,
     effects = [], connections = [(5, 0)], timeouts = [], running = True, pool = demo_manager\<rparr>"

lemma demo_pool_fields [simp]:
  "heap demo_pool = [0 \<mapsto> demo_pool_conn]" "next_addr demo_pool = 1" "open_fds demo_pool = [5, 0, 1, 2]"
  "ticks demo_pool = 0" "effects demo_pool = []" "connections demo_pool = [(5, 0)]"
  "timeouts demo_pool = []" "pool demo_pool = demo_manager"
  by (simp_all add: demo_pool_def)

lemma demo_manager_fields [simp]:
  "connected demo_manager" "pool_has_job demo_manager" "authenticated demo_manager"
  "next_id demo_manager = 1" "pool_conn demo_manager = Some 0" "pool_fd demo_manager = 5"
  "current_pool_index demo_manager = 0" "pool_configs demo_manager = [pool_named ''a'', pool_named ''b'']"
  "share_to_worker demo_manager = []" "reconnect_attempts demo_manager = 0"
  "current_pool demo_manager = ''a''"
  by (simp_all add: demo_manager_def new_pool_manager_def pool_named_def)

lemma demo_pool_conn_fields [simp]:
  "fd demo_pool_conn = 5" "state demo_pool_conn = CONNECTED"
  "pimpl demo_pool_conn = Some (fresh_impl\<lparr>ssl := True, ctx := True, tls_handshake_complete := True\<rparr>)"
  by (simp_all add: demo_pool_conn_def)

lemma demo_manager_ok: "pool_ok demo_manager"
  by (simp add: pool_ok_def int_max_def)

lemma demo_pool_send:
  "send_line calm_env 0 line (demo_pool\<lparr>pool := m\<rparr>) =
    (Inr True, demo_pool\<lparr>ticks := 1, effects := [Sent 5 (line @ [newline])], pool := m\<rparr>)"
proof -
  let ?w = "demo_pool\<lparr>pool := m\<rparr>"
  let ?i = "fresh_impl\<lparr>ssl := True, ctx := True, tls_handshake_complete := True\<rparr>"
  have "write_answer calm_env ?w 0 demo_pool_conn ?i line = (int (Suc (length line)), Ssl_other 0)"
    by (simp add: write_answer_def)
  from send_line_apply [OF _ _ _ this] show ?thesis by (simp add: demo_pool_def nat_add_distrib)
qed

definition no_callbacks :: "'w pool_callbacks" where
  "no_callbacks = \<lparr>job_cb = None, share_response_cb = None, pool_state_cb = None\<rparr>"




definition note_verdict :: "string \<Rightarrow> bool \<Rightarrow> string \<Rightarrow> ('z net_scheme, unit) M" where
  "note_verdict x b e = emit (Printed (x @ (if b then '' ok'' else '' no: '' @ e)))"


text \<open>A response whose result is not an object, such as the \<open>null\<close> that JSON-RPC asks for
  beside an error, is ignored: no callback runs, and a rejected share keeps its entry for ever.\<close>

theorem null_result_ignored:
  assumes "json_library J" and "json_is_null J (resp_result resp)"
  shows "handle_response J E cbs resp w = (Inr (), w)"
  using json_library.null_not_object [OF assms] by (simp add: handle_response_def)

theorem null_result_ignored_witness:
  "handle_response ref_json calm_env (no_callbacks\<lparr>share_response_cb := Some note_verdict\<rparr>)
     \<lparr>resp_id = 1, resp_result = Null, resp_error = Text ''low''\<rparr> demo_pool = (Inr (), demo_pool)"
  by (rule null_result_ignored [OF ref_json_library]) simp

section \<open>Logging in\<close>

definition demo_offline :: pool_world where
  "demo_offline = demo_pool\<lparr>pool := demo_manager\<lparr>connected := False, authenticated := False,
     subscribed := False, pool_has_job := False\<rparr>\<rparr>"

lemma assign_job_Inr:
  "rbind r conv = Inr y \<Longrightarrow> assign_job r conv u w = (Inr (), w\<lparr>pool := (pool w)\<lparr>pool_job := u y (pool_job (pool w))\<rparr>\<rparr>)"
  by (auto simp: assign_job_def rbind_eq_Inr)

lemma assign_job_Inl: "rbind r conv = Inl e \<Longrightarrow> assign_job r conv u w = (Inl e, w)"
  by (auto simp: assign_job_def rbind_eq_Inl)

definition job_doc :: json where
  "job_doc = Object [(''job_id'', Text ''j1''), (''blob'', Text ''bb''), (''target'', Text ''ff''), (''height'', Number 9)]"

text \<open>Property C18: the answer to a login that carries a complete job.  The manager is connected,
  authenticated and subscribed, has exactly the fields of that job as its job (a missing height keeps
  the old one), forgets its failed attempts, reports the pool as connected and then hands the job to
  its callback.\<close>

theorem login_with_job:
  assumes "json_library J" and "\<not> authenticated (pool w)"
    and "json_is_object J (resp_result resp)" and "\<not> json_empty J (resp_result resp)"
    and "json_contains J (resp_result resp) ''job''" and "json_key J (resp_result resp) ''job'' = Inr j"
    and "json_contains J j ''job_id''" and "rbind (json_key J j ''job_id'') (json_string J) = Inr i"
    and "json_contains J j ''blob''" and "rbind (json_key J j ''blob'') (json_string J) = Inr b"
    and "json_contains J j ''target''" and "rbind (json_key J j ''target'') (json_string J) = Inr t"
    and "if json_contains J j ''height'' then rbind (json_key J j ''height'') (json_u64 J) = Inr h
         else h = height (pool_job (pool w))"
  shows "handle_response J E cbs resp w =
    mthen (notify_pool_state cbs True) (distribute_job cbs)
      (w\<lparr>pool := (pool w)\<lparr>connected := True, authenticated := True, subscribed := True,
         pool_job := (pool_job (pool w))\<lparr>job_id := i, blob := b, target := t, height := h\<rparr>,
         pool_has_job := True, reconnect_attempts := 0\<rparr>\<rparr>)"
proof -
  note key = json_library.key_mut_present [OF assms(1)]
  have k: "json_key_mut J j ''job_id'' = json_key J j ''job_id''"
    "json_key_mut J j ''blob'' = json_key J j ''blob''"
    "json_key_mut J j ''target'' = json_key J j ''target''"
    using key assms(7,9,11) by simp_all
  have order: "p\<lparr>subscribed := True, pool_job := x, pool_has_job := True, authenticated := True,
      connected := True, reconnect_attempts := 0\<rparr> = p\<lparr>connected := True, authenticated := True,
      subscribed := True, pool_job := x, pool_has_job := True, reconnect_attempts := 0\<rparr>" for p x
    by simp
  show ?thesis
  proof (cases "json_contains J j ''height''")
    case True
    with assms(13) key have "rbind (json_key_mut J j ''height'') (json_u64 J) = Inr h" by simp
    with True assms k show ?thesis
      by (simp add: handle_response_def accept_login_job_def assign_job_Inr mthen_def mbind_assoc order)
  next
    case False
    with assms k show ?thesis
      by (simp add: handle_response_def accept_login_job_def assign_job_Inr mthen_def mbind_assoc order)
  qed
qed

theorem login_with_job_witness:
  "handle_response ref_json calm_env no_callbacks
     \<lparr>resp_id = 1, resp_result = Object [(''job'', job_doc)], resp_error = Null\<rparr> demo_offline =
   (Inr (), demo_offline\<lparr>pool := (pool demo_offline)\<lparr>connected := True, authenticated := True,
      subscribed := True, pool_job := (pool_job demo_manager)\<lparr>job_id := ''j1'', blob := ''bb'',
        target := ''ff'', height := 9\<rparr>, pool_has_job := True\<rparr>\<rparr>)"
  using login_with_job [OF ref_json_library, of demo_offline
      "\<lparr>resp_id = 1, resp_result = Object [(''job'', job_doc)], resp_error = Null\<rparr>" job_doc "''j1''" "''bb''" "''ff''" 9
      calm_env no_callbacks]
  by (simp add: demo_offline_def job_doc_def notify_pool_state_def distribute_job_def no_callbacks_def
      mthen_def)





section \<open>Losing the pool\<close>

text \<open>Property C21: trying the pools from index \<open>i\<close> on always returns.  It leaves every existing
  connection alone and either adds none, or exactly one: to a pool of the configuration at or after
  \<open>i\<close>, the one the manager's index and name then say, under a fresh descriptor and with the manager's
  callbacks installed.\<close>

theorem failover_connects_once:
  assumes "environment E" and "loop_wf w"
  shows "\<exists>w'. try_connect_pool E i w = (Inr (), w') \<and>
    (connections w' = connections w \<and> heap w' = heap w \<and> open_fds w' = open_fds w \<or>
     (\<exists>f k a. i \<le> k \<and> k < length (pool_configs (pool w)) \<and> 0 \<le> f \<and> f \<notin> set (open_fds w) \<and>
        heap w a = None \<and> current_pool_index (pool w') = k \<and>
        current_pool (pool w') = pool_name (pool_configs (pool w) ! k) \<and>
        pool_fd (pool w') = f \<and> pool_conn (pool w') = Some a \<and>
        heap w' = (heap w)(a \<mapsto> pool_connection_object f (pool_configs (pool w) ! k)) \<and>
        map_of (connections w') = (map_of (connections w))(f \<mapsto> a)))"
proof -
  let ?ps = "drop i (pool_configs (pool w))"
  have t: "try_connect_pool E i w = try_connect_from E i ?ps w" by (simp add: try_connect_pool_def)
  from assms show ?thesis
  proof (cases rule: try_connect_result [where i = i and ps = ?ps])
    case (none n es m q)
    then show ?thesis by (simp add: t)
  next
    case (one n es m k f)
    let ?p = "pool_configs (pool w) ! (i + k)"
    let ?w = "w\<lparr>ticks := n, effects := es, next_addr := m,
       pool := (at_pool (i + k) ?p (pool w))\<lparr>pool_fd := f, pool_conn := Some m\<rparr>\<rparr>"
    have k: "?ps ! k = ?p" "i + k < length (pool_configs (pool w))" using one(2) by simp_all
    have "heap w m = None" using assms(2) one(1) by (simp add: loop_wf_def heap_wf_def)
    moreover have "try_connect_pool E i w = (Inr (), with_connection f (pool_connection_object f ?p) ?w)"
      using one(5) k(1) by (simp add: t)
    moreover have "map_of (connections (with_connection f (pool_connection_object f ?p) ?w)) =
        (map_of (connections w))(f \<mapsto> m)"
      "heap (with_connection f (pool_connection_object f ?p) ?w) = (heap w)(m \<mapsto> pool_connection_object f ?p)"
      "pool (with_connection f (pool_connection_object f ?p) ?w) = pool ?w"
      by (simp_all add: with_connection_def)
    ultimately show ?thesis
      using k(2) one(3,4)
      by (intro exI [of _ "with_connection f (pool_connection_object f ?p) ?w"] conjI disjI2
          exI [of _ f] exI [of _ "i + k"] exI [of _ m]) simp_all
  qed
qed

theorem failover_connects_once_witness:
  "\<exists>w'. try_connect_pool calm_env 1 demo_pool = (Inr (), w') \<and>
    (connections w' = connections demo_pool \<and> heap w' = heap demo_pool \<and> open_fds w' = open_fds demo_pool \<or>
     (\<exists>f k a. 1 \<le> k \<and> k < 2 \<and> current_pool_index (pool w') = k \<and> map_of (connections w') f = Some a))"
proof -
  have "loop_wf demo_pool" by (auto simp: loop_wf_def heap_wf_def table_wf_def split: if_splits)
  from failover_connects_once [OF calm.environment_axioms this, of 1] show ?thesis
    by (elim exE conjE disjE) (auto intro!: exI)
qed

end
