(* ===== verification/Worker_Manager.thy ===== *)
theory Worker_Manager
  imports Pool_Manager
begin

text \<open>
  The downstream side: \<open>src/gpu-proxy-cpp/src/worker_manager.hpp\<close> and \<open>worker_manager.cpp\<close>.  It
  listens, keeps a table of the workers by descriptor, answers their requests, forwards their shares
  through a callback and broadcasts jobs.

  The state of the pool manager is part of the world because the two managers live in one process;
  nothing here reads or writes it.
\<close>

section \<open>State\<close>

text \<open>\<open>info_conn\<close> is the non-owning pointer to the worker's connection, \<open>None\<close> when null.\<close>

record worker_info =
  info_conn :: "nat option"
  worker_id :: string
  worker_subscribed :: bool
  worker_authorized :: bool
  extra_nonce2 :: string

record worker_manager =
  listen_fd :: int
  worker_port :: "16 word"
  workers :: "(int \<times> worker_info) list"
  worker_configs :: "worker_config list"
  require_whitelist :: bool
  current_job :: job
  has_job :: bool
  next_extra_nonce2 :: "32 word"

record proxy = pool_world +
  wm :: worker_manager

type_synonym 'w share_callback = "(string \<Rightarrow> string \<Rightarrow> string \<Rightarrow> string \<Rightarrow> ('w, unit) M) option"

definition get_wm :: "(worker_manager \<Rightarrow> 'a) \<Rightarrow> ('z proxy_scheme, 'a) M" where
  "get_wm f = mget (\<lambda>w. f (wm w))"

definition set_wm :: "(worker_manager \<Rightarrow> worker_manager) \<Rightarrow> ('z proxy_scheme, unit) M" where
  "set_wm f = mmodify (\<lambda>w. w\<lparr>wm := f (wm w)\<rparr>)"

definition new_worker_manager :: "garbage \<Rightarrow> 16 word \<Rightarrow> worker_config list \<Rightarrow> worker_manager" where
  "new_worker_manager g port cfgs =
     \<lparr>listen_fd = -1, worker_port = port, workers = [], worker_configs = cfgs,
      require_whitelist = (cfgs \<noteq> []),
      current_job = empty_job\<lparr>height := any_u64 g, clean_jobs := any_bool g\<rparr>, has_job = False,
      next_extra_nonce2 = 0\<rparr>"

text \<open>The destructor.\<close>

definition delete_worker_manager :: "('z proxy_scheme, unit) M" where
  "delete_worker_manager = mbind (get_wm listen_fd) (\<lambda>f. mwhen (f \<ge> 0) (close_fd f))"

definition worker_count :: "worker_manager \<Rightarrow> nat" where
  "worker_count m = length (workers m)"

definition find_worker :: "int \<Rightarrow> ('z proxy_scheme, worker_info option) M" where
  "find_worker f = get_wm (\<lambda>m. map_of (workers m) f)"

text \<open>\<open>it->second.x = ...\<close> through an iterator that \<open>find\<close> returned.\<close>

definition update_worker :: "int \<Rightarrow> (worker_info \<Rightarrow> worker_info) \<Rightarrow> ('z proxy_scheme, unit) M" where
  "update_worker f u =
     mbind (find_worker f) (\<lambda>r.
     case r of
       None \<Rightarrow> mfail Undefined
     | Some i \<Rightarrow> set_wm (\<lambda>m. m\<lparr>workers := AList.update f (u i) (workers m)\<rparr>))"

text \<open>\<open>it->second.conn\<close> used as an object.\<close>

definition worker_conn :: "worker_info \<Rightarrow> ('z proxy_scheme, nat) M" where
  "worker_conn i = (case info_conn i of None \<Rightarrow> mfail Undefined | Some a \<Rightarrow> mret a)"

section \<open>Jobs\<close>

text \<open>
  The notification.  \<open>send_job\<close> also builds a \<open>mining.notify\<close> line that it does not send.
\<close>

definition job_message :: "job \<Rightarrow> string" where
  "job_message j =
     ''{\"jsonrpc\":\"2.0\", \"method\": \"job\", \"params\": {\"algo\": \"cuckaroo\", \"blob\": \"'' @
     blob j @ ''\", \"job_id\": \"'' @ job_id j @ ''\", \"target\": \"'' @ target j @
     ''\", \"height\": '' @ show_nat (unat (height j)) @ ''}}''"

definition send_job_to :: "env \<Rightarrow> job \<Rightarrow> int \<Rightarrow> ('z proxy_scheme, unit) M" where
  "send_job_to E j f =
     mbind (find_worker f) (\<lambda>r.
     case r of
       None \<Rightarrow> mfail Undefined
     | Some i \<Rightarrow>
         if \<not> worker_subscribed i \<or> \<not> worker_authorized i then mret ()
         else mbind (worker_conn i) (\<lambda>a. mbind (send_line E a (job_message j)) (\<lambda>_. mret ())))"

definition send_job :: "env \<Rightarrow> job \<Rightarrow> ('z proxy_scheme, unit) M" where
  "send_job E j =
     mthen (set_wm (\<lambda>m. m\<lparr>current_job := j, has_job := True\<rparr>))
     (mbind (get_wm workers) (\<lambda>ws.
      if ws = [] then mret ()
      else mbind (ask (\<lambda>n. hash_order E n (map fst ws))) (\<lambda>fs. mfor fs (send_job_to E j))))"

definition send_current_job :: "env \<Rightarrow> ('z proxy_scheme, unit) M" where
  "send_current_job E =
     mbind (get_wm has_job) (\<lambda>h. mwhen h (mbind (get_wm current_job) (send_job E)))"

definition send_response :: "env \<Rightarrow> int \<Rightarrow> string \<Rightarrow> ('z proxy_scheme, unit) M" where
  "send_response E f response =
     mbind (find_worker f) (\<lambda>r.
     case r of None \<Rightarrow> mret ()
     | Some i \<Rightarrow> mbind (worker_conn i) (\<lambda>a. mbind (send_line E a response) (\<lambda>_. mret ())))"

section \<open>Listening and accepting\<close>

definition worker_start :: "env \<Rightarrow> ('z proxy_scheme, unit) M" where
  "worker_start E =
     mbind (mget open_fds) (\<lambda>S.
     mbind (ask (\<lambda>n. sys_socket E n S)) (\<lambda>f.
     mthen (set_wm (\<lambda>m. m\<lparr>listen_fd := f\<rparr>))
     (if f < 0 then mret ()
      else
        mthen (register_fd f)
        (mbind (get_wm worker_port) (\<lambda>port.
        mbind (ask (\<lambda>n. sys_bind E n f port)) (\<lambda>r.
        if r < 0 then mthen (close_fd f) (set_wm (\<lambda>m. m\<lparr>listen_fd := -1\<rparr>))
        else mbind (ask (\<lambda>n. sys_listen E n f 5)) (\<lambda>r.
        if r < 0 then mthen (close_fd f) (set_wm (\<lambda>m. m\<lparr>listen_fd := -1\<rparr>))
        else mbind (ask (\<lambda>n. sys_set_nonblocking E n f)) (\<lambda>_.
             set_timeout E 100 Accept_timer True))))))))"

definition worker_name :: "string \<Rightarrow> 16 word \<Rightarrow> string" where
  "worker_name ip port = ''worker:'' @ ip @ '':'' @ show_nat (unat port)"

text \<open>\<open>next_extra_nonce2_++\<close> as eight hexadecimal digits; the counter wraps around.\<close>

definition take_extra_nonce2 :: "('z proxy_scheme, string) M" where
  "take_extra_nonce2 =
     mbind (get_wm next_extra_nonce2) (\<lambda>n.
     mthen (set_wm (\<lambda>m. m\<lparr>next_extra_nonce2 := n + 1\<rparr>))
           (mret (show_hex_padded 8 (unat n))))"

definition adopt_worker :: "env \<Rightarrow> int \<Rightarrow> string \<Rightarrow> ('z proxy_scheme, unit) M" where
  "adopt_worker E client_fd name =
     mbind (new_connection E no_callback client_fd WORKER name) (\<lambda>a.
     mthen (set_state_callback a (Worker_closure a))
     (mthen (set_message_callback a (Worker_closure a))
     (mthen (add_connection a)
     (mbind (get_connection client_fd) (\<lambda>conn_ptr.
      mbind take_extra_nonce2 (\<lambda>nonce.
      mthen (set_wm (\<lambda>m. m\<lparr>workers := AList.update client_fd
               \<lparr>info_conn = conn_ptr, worker_id = [], worker_subscribed = False,
                worker_authorized = False, extra_nonce2 = nonce\<rparr> (workers m)\<rparr>))
            (send_current_job E)))))))"

definition accept_worker :: "env \<Rightarrow> ('z proxy_scheme, unit) M" where
  "accept_worker E =
     mbind (get_wm listen_fd) (\<lambda>l.
     if l < 0 then mret ()
     else
       mbind (mget open_fds) (\<lambda>S.
       mbind (ask (\<lambda>n. sys_accept E n S l)) (\<lambda>(client_fd, err, ip, port).
       if client_fd < 0 then mret ()
       else mthen (register_fd client_fd) (adopt_worker E client_fd (worker_name ip port)))))"

section \<open>Requests of a worker\<close>

definition on_worker_state :: "nat \<Rightarrow> connection_state \<Rightarrow> ('z proxy_scheme, unit) M" where
  "on_worker_state a s =
     mbind (deref a) (\<lambda>c.
     if s = ERROR \<or> s = DISCONNECTED
     then set_wm (\<lambda>m. m\<lparr>workers := AList.delete (fd c) (workers m)\<rparr>)
     else mret ())"

definition is_worker_allowed :: "worker_manager \<Rightarrow> string \<Rightarrow> bool" where
  "is_worker_allowed m w =
     (if \<not> require_whitelist m then True
      else list_ex (\<lambda>cfg. worker_cfg_id cfg = w) (worker_configs m))"

definition worker_passes :: "worker_manager \<Rightarrow> string \<Rightarrow> bool" where
  "worker_passes m w \<longleftrightarrow> \<not> require_whitelist m \<or> is_worker_allowed m w"

text \<open>
  The raw string literal of the response runs up to the closing parenthesis and quote at its end, so
  the text \<open>" + std::to_string(fd) + R"(\<close> and the line break in it are part of the message.
\<close>

definition subscribe_response :: "int \<Rightarrow> string" where
  "subscribe_response i =
     ''{\"id\": '' @ show_int i @
     '', \"result\": [[[\"mining.notify\", \"]\" + std::to_string(fd) +'' @ [newline] @
     ''        R\"(\"], \"\"], \"8\"], \"error\": null}''"

definition authorize_response :: "int \<Rightarrow> bool \<Rightarrow> string" where
  "authorize_response i allowed =
     ''{\"id\": '' @ show_int i @ '', \"result\": '' @ (if allowed then ''true'' else ''false'') @
     '', \"error\": null}''"

definition login_response :: "int \<Rightarrow> int \<Rightarrow> job option \<Rightarrow> string" where
  "login_response i f j =
     (case j of
        Some j \<Rightarrow>
          ''{\"id\": '' @ show_int i @ '', \"jsonrpc\": \"2.0\", \"result\": {\"id\": \"'' @ show_int f @
          ''\", \"job\": {\"algo\":\"cuckaroo\",\"blob\":\"'' @ blob j @
          ''\",\"job_id\":\"'' @ job_id j @ ''\",\"target\":\"'' @ target j @
          ''\",\"height\":'' @ show_nat (unat (height j)) @ ''}, \"status\": \"OK\"}, \"error\": null}''
      | None \<Rightarrow>
          ''{\"id\": '' @ show_int i @ '', \"jsonrpc\": \"2.0\", \"result\": {\"id\": \"'' @ show_int f @
          ''\", \"status\": \"OK\"}, \"error\": null}'')"

definition submit_response :: "int \<Rightarrow> string" where
  "submit_response i = ''{\"id\": '' @ show_int i @ '', \"jsonrpc\": \"2.0\", \"result\": true}''"

text \<open>\<open>auto it = workers_.find(fd); if (it == workers_.end()) return;\<close>\<close>

definition with_worker ::
    "nat \<Rightarrow> (int \<Rightarrow> worker_info \<Rightarrow> ('z proxy_scheme, unit) M) \<Rightarrow> ('z proxy_scheme, unit) M" where
  "with_worker a body =
     mbind (deref a) (\<lambda>c.
     mbind (find_worker (fd c)) (\<lambda>r. case r of None \<Rightarrow> mret () | Some i \<Rightarrow> body (fd c) i))"

definition handle_subscribe ::
    "env \<Rightarrow> nat \<Rightarrow> 'j stratum_request \<Rightarrow> ('z proxy_scheme, unit) M" where
  "handle_subscribe E a req =
     with_worker a (\<lambda>f i.
       mbind (send_line E a (subscribe_response (req_id req))) (\<lambda>_.
       mthen (update_worker f (\<lambda>i. i\<lparr>worker_subscribed := True\<rparr>))
             (send_current_job E)))"

text \<open>The end of \<open>handle_authorize\<close> and \<open>handle_login\<close> for a worker that is not in the whitelist.\<close>

definition reject_worker :: "worker_info \<Rightarrow> ('z proxy_scheme, unit) M" where
  "reject_worker i = mbind (worker_conn i) mark_for_closing"

definition handle_authorize ::
    "'j json_lib \<Rightarrow> env \<Rightarrow> nat \<Rightarrow> 'j stratum_request \<Rightarrow> ('z proxy_scheme, unit) M" where
  "handle_authorize J E a req =
     with_worker a (\<lambda>f i.
       mbind (if json_is_array J (req_params req) \<and> json_size J (req_params req) > 0
              then mlift (string_at J (req_params req) 0) else mret []) (\<lambda>wid.
       mthen (update_worker f (\<lambda>i. i\<lparr>worker_id := wid\<rparr>))
       (mbind (get_wm (\<lambda>m. worker_passes m wid)) (\<lambda>allowed.
        mbind (send_line E a (authorize_response (req_id req) allowed)) (\<lambda>_.
        if allowed then update_worker f (\<lambda>i. i\<lparr>worker_authorized := True\<rparr>)
        else reject_worker i)))))"

definition handle_login ::
    "'j json_lib \<Rightarrow> env \<Rightarrow> nat \<Rightarrow> 'j stratum_request \<Rightarrow> ('z proxy_scheme, unit) M" where
  "handle_login J E a req =
     with_worker a (\<lambda>f i.
       mbind (if json_is_object J (req_params req) \<and> json_contains J (req_params req) ''login''
              then mlift (rbind (json_key J (req_params req) ''login'') (json_string J))
              else mret []) (\<lambda>wid.
       mthen (update_worker f (\<lambda>i. i\<lparr>worker_id := wid\<rparr>))
       (mbind (get_wm (\<lambda>m. worker_passes m wid)) (\<lambda>allowed.
        mbind (get_wm (\<lambda>m. if has_job m then Some (current_job m) else None)) (\<lambda>j.
        mbind (send_line E a (login_response (req_id req) f j)) (\<lambda>_.
        if allowed
        then update_worker f (\<lambda>i. i\<lparr>worker_subscribed := True, worker_authorized := True\<rparr>)
        else reject_worker i))))))"

text \<open>The four strings of a share: worker, job, nonce, result.\<close>

definition field_or_empty :: "'j json_lib \<Rightarrow> 'j \<Rightarrow> string \<Rightarrow> string result" where
  "field_or_empty J j k =
     (if json_contains J j k then rbind (json_key J j k) (json_string J) else Inr [])"

definition share_fields ::
    "'j json_lib \<Rightarrow> 'j stratum_request \<Rightarrow> (string \<times> string \<times> string \<times> string) result" where
  "share_fields J req =
     (let p = req_params req in
      if req_method req = MONERO_SUBMIT \<and> json_is_object J p
      then rbind (field_or_empty J p ''id'') (\<lambda>w.
           rbind (field_or_empty J p ''job_id'') (\<lambda>j.
           rbind (field_or_empty J p ''nonce'') (\<lambda>n.
           rbind (field_or_empty J p ''result'') (\<lambda>r. Inr (w, j, n, r)))))
      else if json_is_array J p \<and> json_size J p \<ge> 4
      then rbind (string_at J p 0) (\<lambda>w.
           rbind (string_at J p 1) (\<lambda>j.
           rbind (string_at J p 2) (\<lambda>n.
           rbind (string_at J p 3) (\<lambda>r. Inr (w, j, n, r)))))
      else Inr ([], [], [], []))"

definition handle_submit ::
    "'j json_lib \<Rightarrow> env \<Rightarrow> ('z proxy_scheme) share_callback \<Rightarrow> nat \<Rightarrow> 'j stratum_request \<Rightarrow>
     ('z proxy_scheme, unit) M" where
  "handle_submit J E share_cb a req =
     with_worker a (\<lambda>f i.
       mbind (mlift (share_fields J req)) (\<lambda>(w, j, n, r).
       mbind (send_line E a (submit_response (req_id req))) (\<lambda>_.
       case share_cb of None \<Rightarrow> mret () | Some cb \<Rightarrow> cb w j n r)))"

fun dispatch_request ::
    "'j json_lib \<Rightarrow> env \<Rightarrow> ('z proxy_scheme) share_callback \<Rightarrow> nat \<Rightarrow> 'j stratum_request \<Rightarrow>
     stratum_method \<Rightarrow> ('z proxy_scheme, unit) M" where
  "dispatch_request J E share_cb a req SUBSCRIBE = handle_subscribe E a req"
| "dispatch_request J E share_cb a req AUTHORIZE = handle_authorize J E a req"
| "dispatch_request J E share_cb a req LOGIN = handle_login J E a req"
| "dispatch_request J E share_cb a req SUBMIT = handle_submit J E share_cb a req"
| "dispatch_request J E share_cb a req MONERO_SUBMIT = handle_submit J E share_cb a req"
| "dispatch_request J E share_cb a req _ = mret ()"

definition on_worker_message ::
    "'j json_lib \<Rightarrow> env \<Rightarrow> ('z proxy_scheme) share_callback \<Rightarrow> nat \<Rightarrow> string \<Rightarrow>
     ('z proxy_scheme, unit) M" where
  "on_worker_message J E share_cb a line =
     mbind (deref a) (\<lambda>_.
     mcatch
       (mbind (ask (\<lambda>n. memory E n)) (\<lambda>g.
        mbind (mlift (stratum_parse J g line)) (\<lambda>req.
        dispatch_request J E share_cb a req (req_method req))))
       (mret ()))"

section \<open>What the worker manager keeps true\<close>

text \<open>
  Every entry points to the connection the worker was accepted on, which has the entry's descriptor
  as long as it exists.  A worker counts as authorised only while its name passes the whitelist or
  its connection is about to be closed, or closed already.
\<close>

definition points_to :: "'z net_scheme \<Rightarrow> int \<Rightarrow> nat \<Rightarrow> bool" where
  "points_to w f a \<longleftrightarrow> a < next_addr w \<and> (\<forall>c. heap w a = Some c \<longrightarrow> ctype c = WORKER \<and> fd c = f)"

definition doomed :: "'z net_scheme \<Rightarrow> nat \<Rightarrow> bool" where
  "doomed w a \<longleftrightarrow> (\<forall>c. heap w a = Some c \<longrightarrow> should_close c)"

definition entry_ok :: "'z net_scheme \<Rightarrow> worker_manager \<Rightarrow> int \<Rightarrow> worker_info \<Rightarrow> bool" where
  "entry_ok w m f i \<longleftrightarrow>
     (\<exists>a. info_conn i = Some a \<and> points_to w f a \<and>
          (worker_authorized i \<longrightarrow> worker_passes m (worker_id i) \<or> doomed w a))"

definition workers_ok :: "'z net_scheme \<Rightarrow> worker_manager \<Rightarrow> bool" where
  "workers_ok w m \<longleftrightarrow>
     distinct (map fst (workers m)) \<and>
     (\<forall>f i. map_of (workers m) f = Some i \<longrightarrow> entry_ok w m f i)"

lemma new_worker_manager_ok: "workers_ok w (new_worker_manager g port cfgs)"
  by (simp add: workers_ok_def new_worker_manager_def)

lemma get_wm_apply [simp]: "get_wm f w = (Inr (f (wm w)), w)"
  by (simp add: get_wm_def)

lemma mbind_get_wm: "mbind (get_wm f) g w = g (f (wm w)) w"
  by (simp add: mbind_def)

lemma set_wm_apply [simp]: "set_wm f w = (Inr (), w\<lparr>wm := f (wm w)\<rparr>)"
  by (simp add: set_wm_def)

lemma find_worker_apply [simp]: "find_worker f w = (Inr (map_of (workers (wm w)) f), w)"
  by (simp add: find_worker_def)

lemma update_worker_apply:
  "map_of (workers (wm w)) f = Some i \<Longrightarrow>
   update_worker f u w = (Inr (), w\<lparr>wm := (wm w)\<lparr>workers := AList.update f (u i) (workers (wm w))\<rparr>\<rparr>)"
  by (simp add: update_worker_def)

lemma worker_frames [frame]:
  "keeps f (get_wm g)" "keeps f (find_worker x)" "keeps f (worker_conn i)"
  "invar I (get_wm g)" "invar I (find_worker x)" "invar I (worker_conn i)"
  "keeps heap (set_wm u)" "keeps next_addr (set_wm u)" "keeps connections (set_wm u)"
  "keeps timeouts (set_wm u)" "keeps running (set_wm u)" "keeps pool (set_wm u)"
  by (simp_all add: keeps_def invar_def worker_conn_def split: option.split)

lemma wm_safe [safe]:
  "only_fails S (get_wm g)" "only_fails S (set_wm u)" "only_fails S (find_worker x)"
  by (simp_all add: get_wm_def set_wm_def find_worker_def only_fails_mget only_fails_mmodify)

lemma passes_cong:
  "worker_configs m = worker_configs m' \<Longrightarrow> require_whitelist m = require_whitelist m' \<Longrightarrow>
   worker_passes m x = worker_passes m' x"
  by (simp add: worker_passes_def is_worker_allowed_def)

text \<open>Changing one entry of the table, or something else in the manager.\<close>

lemma workers_ok_entry:
  assumes "workers_ok w m" and "entry_ok w m f i"
  shows "workers_ok w (m\<lparr>workers := AList.update f i (workers m)\<rparr>)"
proof -
  have "entry_ok w (m\<lparr>workers := ws\<rparr>) g j = entry_ok w m g j" for ws g j
    using passes_cong [of "m\<lparr>workers := ws\<rparr>" m] by (simp add: entry_ok_def)
  with assms show ?thesis by (auto simp: workers_ok_def distinct_update)
qed

lemma workers_ok_delete: "workers_ok w m \<Longrightarrow> workers_ok w (m\<lparr>workers := AList.delete f (workers m)\<rparr>)"
  using passes_cong [of "m\<lparr>workers := AList.delete f (workers m)\<rparr>" m]
  by (simp add: workers_ok_def entry_ok_def distinct_delete)

lemma workers_ok_same:
  assumes "workers_ok w m" and "workers m' = workers m"
    and "worker_configs m' = worker_configs m" and "require_whitelist m' = require_whitelist m"
  shows "workers_ok w m'"
  using assms passes_cong [of m' m] by (simp add: workers_ok_def entry_ok_def)

text \<open>Changing the connections: what an entry says survives.\<close>

lemma evolves_refl [simp]: "evolves c c"
  by (simp add: evolves_def)

lemma evolves_close [simp]: "evolves c (c\<lparr>should_close := True\<rparr>)"
  by (simp add: evolves_defs)

lemma entry_ok_mono:
  assumes "entry_ok w m f i"
    and "next_addr w \<le> next_addr w'"
    and "\<And>a c'. a < next_addr w \<Longrightarrow> heap w' a = Some c' \<Longrightarrow> \<exists>c. heap w a = Some c \<and> evolves c c'"
  shows "entry_ok w' m f i"
  using assms unfolding entry_ok_def points_to_def doomed_def evolves_defs by fastforce

lemma workers_ok_mono:
  assumes "workers_ok w m"
    and "next_addr w \<le> next_addr w'"
    and "\<And>a c'. a < next_addr w \<Longrightarrow> heap w' a = Some c' \<Longrightarrow> \<exists>c. heap w a = Some c \<and> evolves c c'"
  shows "workers_ok w' m"
  using assms entry_ok_mono [of w m _ _ w'] by (simp add: workers_ok_def)

lemma workers_ok_local: "local_invariant (\<lambda>w :: 'z proxy_scheme. workers_ok w (wm w))"
proof
  fix w :: "'z proxy_scheme" and n es a c c'
  assume w: "workers_ok w (wm w)"
  show "workers_ok (w\<lparr>ticks := n\<rparr>) (wm (w\<lparr>ticks := n\<rparr>))"
    "workers_ok (w\<lparr>effects := es\<rparr>) (wm (w\<lparr>effects := es\<rparr>))"
    using workers_ok_mono [OF w, of "w\<lparr>ticks := n\<rparr>"] workers_ok_mono [OF w, of "w\<lparr>effects := es\<rparr>"]
    by auto
  assume c: "heap w a = Some c" "evolves c c'"
  have "\<exists>c. heap w b = Some c \<and> evolves c d" if "heap (w\<lparr>heap := (heap w)(a \<mapsto> c')\<rparr>) b = Some d" for b d
    using c that by (cases "b = a") auto
  then show "workers_ok (w\<lparr>heap := (heap w)(a \<mapsto> c')\<rparr>) (wm (w\<lparr>heap := (heap w)(a \<mapsto> c')\<rparr>))"
    using workers_ok_mono [OF w, of "w\<lparr>heap := (heap w)(a \<mapsto> c')\<rparr>"] by simp
qed

section \<open>Sending does not look at the managers\<close>

lemma send_line_wm:
  assumes "heap w a = Some c" and "pimpl c = Some i"
  obtains b w' where "send_line E a line w = (Inr b, w')"
    "\<And>m. send_line E a line (w\<lparr>wm := m\<rparr>) = (Inr b, w'\<lparr>wm := m\<rparr>)" "wm w' = wm w"
    "next_addr w' = next_addr w"
    "\<And>d c'. heap w' d = Some c' \<Longrightarrow> \<exists>c. heap w d = Some c \<and> evolves c c'"
    "\<And>d c. heap w d = Some c \<Longrightarrow> \<exists>c'. heap w' d = Some c' \<and> evolves c c'"
proof (cases "is_connected c \<or> tls_handshake_complete i")
  case False
  with assms send_line_refused [OF assms] send_line_refused [of "w\<lparr>wm := m\<rparr>" a c i for m]
  show thesis by (intro that [of False w]) auto
next
  case True
  obtain sent err where s: "write_answer E w a c i line = (sent, err)"
    by (cases "write_answer E w a c i line")
  then have "write_answer E (w\<lparr>wm := m\<rparr>) a c i line = (sent, err)" for m
    by (cases "ssl i") (simp_all add: write_answer_def)
  from send_line_apply [OF assms True s] send_line_apply [of "w\<lparr>wm := m\<rparr>" a c i for m, OF _ _ True this] assms
  show thesis
    by (cases "sent \<le> 0"; cases "ssl i \<and> (err = Ssl_want_write \<or> err = Ssl_want_read)")
      (auto intro!: that split: if_splits)
qed

section \<open>A new worker\<close>

definition worker_object :: "nat \<Rightarrow> connection \<Rightarrow> bool" where
  "worker_object a c \<longleftrightarrow> pimpl c \<noteq> None \<and> ctype c = WORKER \<and>
     message_cb c = Some (Worker_closure a) \<and> state_cb c = Some (Worker_closure a)"

definition worker_connection_object :: "nat \<Rightarrow> int \<Rightarrow> string \<Rightarrow> connection" where
  "worker_connection_object a f name = (fresh_connection f WORKER name)
     \<lparr>state_cb := Some (Worker_closure a), message_cb := Some (Worker_closure a)\<rparr>"

lemma worker_connection_object [simp]:
  "worker_object a (worker_connection_object a f name)" "fd (worker_connection_object a f name) = f"
  "state (worker_connection_object a f name) = CONNECTED"
  "ctype (worker_connection_object a f name) = WORKER"
  by (simp_all add: worker_object_def worker_connection_object_def fresh_connection_def)

definition new_worker :: "nat \<Rightarrow> string \<Rightarrow> worker_info" where
  "new_worker a nonce = \<lparr>info_conn = Some a, worker_id = [], worker_subscribed = False,
     worker_authorized = False, extra_nonce2 = nonce\<rparr>"

text \<open>The manager after a worker was accepted on descriptor \<open>f\<close> with the connection at \<open>a\<close>.\<close>

definition enrol :: "int \<Rightarrow> nat \<Rightarrow> worker_manager \<Rightarrow> worker_manager" where
  "enrol f a m = m\<lparr>next_extra_nonce2 := next_extra_nonce2 m + 1,
     workers := AList.update f (new_worker a (show_hex_padded 8 (unat (next_extra_nonce2 m)))) (workers m)\<rparr>"

lemma adopt_worker_apply:
  assumes "loop_wf w" and "f \<notin> set (open_fds w)"
  shows "adopt_worker E f name (w\<lparr>open_fds := f # open_fds w\<rparr>) =
    send_current_job E
      (with_connection f (worker_connection_object (next_addr w) f name) (w\<lparr>ticks := Suc (ticks w)\<rparr>)
        \<lparr>wm := enrol f (next_addr w) (wm w)\<rparr>)"
  using loop_wf_closed [OF assms]
  by (cases w) (simp add: adopt_worker_def new_connection_apply set_state_callback_def set_message_callback_def
      add_connection_new get_connection_def take_extra_nonce2_def mthen_def enrol_def new_worker_def
      with_connection_def worker_connection_object_def fresh_connection_def)

lemma enrol_ok:
  assumes "workers_ok w (wm w)" and "loop_wf w" and "ctype c = WORKER" and "fd c = f"
  shows "workers_ok (with_connection f c w) (enrol f (next_addr w) (wm w))"
proof -
  let ?m = "(wm w)\<lparr>next_extra_nonce2 := next_extra_nonce2 (wm w) + 1\<rparr>"
  have "workers_ok w ?m" using assms(1) by (rule workers_ok_same) simp_all
  then have "workers_ok (with_connection f c w) ?m"
    by (rule workers_ok_mono) (auto simp: with_connection_def)
  moreover have "entry_ok (with_connection f c w) ?m f (new_worker (next_addr w) nonce)" for nonce
    using assms by (simp add: entry_ok_def points_to_def new_worker_def with_connection_def)
  ultimately show ?thesis
    using workers_ok_entry [of "with_connection f c w" ?m f]
    by (simp add: enrol_def)
qed

section \<open>Invariants through the worker manager\<close>

locale worker_owner = local_invariant I
  for I :: "'z proxy_scheme \<Rightarrow> bool" +
  fixes E :: env and share_cb :: "('z proxy_scheme) share_callback"
  assumes W_env: "environment E"
    and I_wf: "I w \<Longrightarrow> loop_wf w"
    and I_workers: "I w \<Longrightarrow> workers_ok w (wm w)"
    and I_set_wm: "I w \<Longrightarrow> workers_ok w m \<Longrightarrow> listen_fd m = listen_fd (wm w) \<Longrightarrow> I (w\<lparr>wm := m\<rparr>)"
    and I_accept: "I w \<Longrightarrow> 0 \<le> f \<Longrightarrow> f \<notin> set (open_fds w) \<Longrightarrow> worker_object (next_addr w) c \<Longrightarrow>
      fd c = f \<Longrightarrow> I (with_connection f c w\<lparr>wm := enrol f (next_addr w) (wm w)\<rparr>)"
    and submit_invar: "share_cb = Some g \<Longrightarrow> invar (\<lambda>w. I w \<and> holds a k s w) (g x j n r)"
begin

lemma set_wm_invar:
  assumes "\<And>w. I w \<Longrightarrow> workers_ok w (wm w) \<Longrightarrow> workers_ok w (u (wm w))"
    and "\<And>m. listen_fd (u m) = listen_fd m"
  shows "invar (\<lambda>w. I w \<and> holds a k s w) (set_wm u)"
  using assms I_workers I_set_wm by (auto simp: invar_def holds_def)

lemma line_invar: "invar (\<lambda>w. I w \<and> holds a k s w) (send_line E b line)"
  unfolding send_line_def Let_def mark_for_closing_def
  by (auto intro!: frame both_prims both_update simp: evolves_defs split: prod.splits)

lemma mark_I: "invar (\<lambda>w. I w \<and> holds a k s w) (mark_for_closing b)"
  unfolding mark_for_closing_def by (intro both_update) (simp_all add: evolves_defs)

lemma send_job_to_invar: "invar (\<lambda>w. I w \<and> holds a k s w) (send_job_to E j f)"
  unfolding send_job_to_def by (intro frame line_invar)

lemma send_job_invar: "invar (\<lambda>w. I w \<and> holds a k s w) (send_job E j)"
  unfolding send_job_def
  by (intro frame both_prims send_job_to_invar set_wm_invar) (auto intro: workers_ok_same)

lemma send_current_invar: "invar (\<lambda>w. I w \<and> holds a k s w) (send_current_job E)"
  unfolding send_current_job_def by (intro frame send_job_invar)

lemma accept_reaches:
  assumes "I w"
  shows "\<exists>w'. I w' \<and> (\<forall>a k s. holds a k s w \<longrightarrow> holds a k s w') \<and>
    (accept_worker E w = (Inr (), w') \<or>
     accept_worker E w = send_current_job E w' \<and> (\<exists>a k s. holds a k s w'))"
proof -
  let ?w = "w\<lparr>ticks := Suc (ticks w)\<rparr>"
  obtain f err ip port where acc: "sys_accept E (ticks w) (open_fds w) (listen_fd (wm w)) = (f, err, ip, port)"
    by (cases "sys_accept E (ticks w) (open_fds w) (listen_fd (wm w))") auto
  have w1: "I ?w" "\<forall>a k s. holds a k s w \<longrightarrow> holds a k s ?w" using assms by (simp_all add: W_ticks holds_def)
  show ?thesis
  proof (cases "listen_fd (wm w) < 0")
    case True
    with assms show ?thesis by (intro exI [of _ w]) (simp add: accept_worker_def)
  next
    case l: False
    show ?thesis
    proof (cases "f < 0")
      case True
      with l w1 acc show ?thesis by (intro exI [of _ ?w]) (simp add: accept_worker_def)
    next
      case False
      let ?c = "worker_connection_object (next_addr w) f (worker_name ip port)"
      let ?w' = "with_connection f ?c (?w\<lparr>ticks := Suc (ticks ?w)\<rparr>)\<lparr>wm := enrol f (next_addr w) (wm w)\<rparr>"
      have f: "f \<notin> set (open_fds w)"
        using environment.accept_fresh [OF W_env, of "ticks w" "open_fds w" "listen_fd (wm w)"] acc False
        by simp
      have "accept_worker E w = adopt_worker E f (worker_name ip port) (?w\<lparr>open_fds := f # open_fds ?w\<rparr>)"
        using False l acc by (simp add: accept_worker_def register_fd_def mthen_def)
      also have "\<dots> = send_current_job E ?w'"
        using adopt_worker_apply [OF I_wf [OF w1(1)], of f E "worker_name ip port"] f by simp
      finally have e: "accept_worker E w = send_current_job E ?w'" .
      have "I ?w'"
        using I_accept [of "?w\<lparr>ticks := Suc (ticks ?w)\<rparr>" f ?c] W_ticks [OF w1(1)] False f by simp
      moreover have "\<forall>a k s. holds a k s w \<longrightarrow> holds a k s ?w'"
        by (auto simp: holds_def with_connection_def)
      moreover have "holds (next_addr w) (key_of ?c) (read_buffer ?c) ?w'"
        by (simp add: holds_def with_connection_def)
      ultimately show ?thesis using e by blast
    qed
  qed
qed

lemma accept_invar:
  "invar I (accept_worker E)" "invar (\<lambda>w. I w \<and> holds a k s w) (accept_worker E)"
proof -
  have "I (snd (accept_worker E w))" if w: "I w" for w
    using accept_reaches [OF w] send_current_invar unfolding invar_def by (metis snd_conv)
  moreover have "I (snd (accept_worker E w)) \<and> holds a k s (snd (accept_worker E w))"
    if w: "I w" "holds a k s w" for w
    using accept_reaches [OF w(1)] w(2) send_current_invar [of a k s] unfolding invar_def
    by (metis snd_conv)
  ultimately show "invar I (accept_worker E)"
    "invar (\<lambda>w. I w \<and> holds a k s w) (accept_worker E)" unfolding invar_def by blast+
qed

lemma with_worker_invar:
  assumes "\<And>w c i. I w \<Longrightarrow> holds a k s w \<Longrightarrow> heap w b = Some c \<Longrightarrow>
     map_of (workers (wm w)) (fd c) = Some i \<Longrightarrow>
     I (snd (body (fd c) i w)) \<and> holds a k s (snd (body (fd c) i w))"
  shows "invar (\<lambda>w. I w \<and> holds a k s w) (with_worker b body)"
proof -
  have "I (snd (with_worker b body w)) \<and> holds a k s (snd (with_worker b body w))"
    if "I w" "holds a k s w" for w
  proof (cases "heap w b")
    case None
    with that show ?thesis by (simp add: with_worker_def)
  next
    case (Some c)
    with that assms [OF that Some] show ?thesis
      by (cases "map_of (workers (wm w)) (fd c)") (simp_all add: with_worker_def)
  qed
  then show ?thesis unfolding invar_def by blast
qed

lemma subscribe_invar: "invar (\<lambda>w. I w \<and> holds a k s w) (handle_subscribe E b req)"
  unfolding handle_subscribe_def
proof (rule with_worker_invar)
  fix w c i
  assume w: "I w" "holds a k s w" "heap w b = Some c" "map_of (workers (wm w)) (fd c) = Some i"
  obtain j where "pimpl c = Some j" using loop_wf_object [OF I_wf [OF w(1)] w(3)] .
  from send_line_wm [OF w(3) this, of E "subscribe_response (req_id req)"] obtain r w' where
    1: "send_line E b (subscribe_response (req_id req)) w = (Inr r, w')" and "wm w' = wm w" by metis
  then have wm: "map_of (workers (wm w')) (fd c) = Some i" using w(4) by simp
  have w': "I w' \<and> holds a k s w'" using invarD [OF line_invar _ 1] w(1,2) by blast
  then have ok: "workers_ok w' (wm w')" using I_workers by blast
  then have "entry_ok w' (wm w') (fd c) i" using wm by (simp add: workers_ok_def)
  then have "entry_ok w' (wm w') (fd c) (i\<lparr>worker_subscribed := True\<rparr>)" by (simp add: entry_ok_def)
  then have "workers_ok w' ((wm w')\<lparr>workers :=
      AList.update (fd c) (i\<lparr>worker_subscribed := True\<rparr>) (workers (wm w'))\<rparr>)"
    using workers_ok_entry [OF ok] by simp
  with w' have "I (w'\<lparr>wm := (wm w')\<lparr>workers :=
      AList.update (fd c) (i\<lparr>worker_subscribed := True\<rparr>) (workers (wm w'))\<rparr>\<rparr>)" (is "I ?w2")
    using I_set_wm by simp
  moreover have "holds a k s ?w2" using w' by (simp add: holds_def)
  ultimately show "I (snd (mbind (send_line E b (subscribe_response (req_id req)))
      (\<lambda>_. mthen (update_worker (fd c) (\<lambda>i. i\<lparr>worker_subscribed := True\<rparr>)) (send_current_job E)) w)) \<and>
    holds a k s (snd (mbind (send_line E b (subscribe_response (req_id req)))
      (\<lambda>_. mthen (update_worker (fd c) (\<lambda>i. i\<lparr>worker_subscribed := True\<rparr>)) (send_current_job E)) w))"
    using 1 wm send_current_invar [of a k s] by (simp add: update_worker_apply invar_def)
qed

text \<open>
  The common end of an authorisation and of a login: the name is recorded, the answer sent, and the
  worker is enabled or its connection marked.  \<open>enable\<close> sets the flags.
\<close>

lemma decide_invar:
  assumes w: "I w" "holds a k s w" "heap w b = Some c" "map_of (workers (wm w)) (fd c) = Some i"
    and "info_conn i = Some d"
    and enable: "\<And>i. info_conn (enable i) = info_conn i \<and> worker_id (enable i) = worker_id i"
    and run: "m = mthen (update_worker (fd c) (\<lambda>i. i\<lparr>worker_id := wid\<rparr>))
      (mbind (send_line E b line) (\<lambda>_.
         if allowed then update_worker (fd c) enable else mbind (worker_conn i) mark_for_closing))"
    and allowed: "allowed = worker_passes (wm w) wid"
  shows "I (snd (m w)) \<and> holds a k s (snd (m w))"
proof -
  obtain j where "pimpl c = Some j" using loop_wf_object [OF I_wf [OF w(1)] w(3)] .
  from send_line_wm [OF w(3) this, of E line] obtain r w' where
    1: "send_line E b line w = (Inr r, w')" and
    2: "\<And>m. send_line E b line (w\<lparr>wm := m\<rparr>) = (Inr r, w'\<lparr>wm := m\<rparr>)" and 3: "wm w' = wm w"
    by metis
  have w': "I w'" "holds a k s w'" using invarD [OF line_invar _ 1] w(1,2) by blast+
  then have ok: "workers_ok w' (wm w')" using I_workers by blast
  let ?ws = "\<lambda>i. AList.update (fd c) i (workers (wm w'))"
  have e: "entry_ok w' (wm w') (fd c) i" using ok w(4) 3 by (simp add: workers_ok_def)
  have m: "m w = (if allowed
     then (Inr (), w'\<lparr>wm := (wm w')\<lparr>workers := AList.update (fd c) (enable (i\<lparr>worker_id := wid\<rparr>)) (?ws (i\<lparr>worker_id := wid\<rparr>))\<rparr>\<rparr>)
     else mark_for_closing d (w'\<lparr>wm := (wm w')\<lparr>workers := ?ws (i\<lparr>worker_id := wid\<rparr>)\<rparr>\<rparr>))"
    using w(4) 3 assms(5) by (simp add: run update_worker_apply 2 worker_conn_def)
  show ?thesis
  proof (cases allowed)
    case True
    let ?i = "enable (i\<lparr>worker_id := wid\<rparr>)"
    have "entry_ok w' (wm w') (fd c) ?i"
      using e enable [of "i\<lparr>worker_id := wid\<rparr>"] True allowed 3 by (auto simp: entry_ok_def)
    then have "workers_ok w' ((wm w')\<lparr>workers := ?ws ?i\<rparr>)" using workers_ok_entry [OF ok] by simp
    moreover have "AList.update (fd c) ?i (?ws (i\<lparr>worker_id := wid\<rparr>)) = ?ws ?i"
      by simp
    ultimately show ?thesis using m True w' I_set_wm by (simp add: holds_def)
  next
    case False
    let ?i = "i\<lparr>worker_id := wid\<rparr>"
    obtain q w2 where mark: "mark_for_closing d w' = (q, w2)" by (cases "mark_for_closing d w'")
    then have w2: "I w2 \<and> holds a k s w2" using invarD [OF mark_I _ mark] w' by blast
    have 5: "wm w2 = wm w'" "mark_for_closing d (w'\<lparr>wm := m\<rparr>) = (q, w2\<lparr>wm := m\<rparr>)" "doomed w2 d" for m
      using mark by (cases "heap w' d"; auto simp: mark_for_closing_def doomed_def)+
    have ok2: "workers_ok w2 (wm w2)" using w2 I_workers by blast
    then have "entry_ok w2 (wm w2) (fd c) i" using w(4) 3 5(1) by (simp add: workers_ok_def)
    then have "entry_ok w2 (wm w2) (fd c) ?i" using 5(3) assms(5) by (simp add: entry_ok_def)
    then have "workers_ok w2 ((wm w2)\<lparr>workers := AList.update (fd c) ?i (workers (wm w2))\<rparr>)"
      using workers_ok_entry [OF ok2] by simp
    then have "I (w2\<lparr>wm := (wm w2)\<lparr>workers := AList.update (fd c) ?i (workers (wm w2))\<rparr>\<rparr>)"
      using w2 I_set_wm by simp
    then show ?thesis using m False w2 5 by (simp add: holds_def)
  qed
qed

lemma with_worker_when:
  assumes "\<And>f i. body f i = mbind (mlift r) (body' f i)"
    and "\<And>wid. r = Inr wid \<Longrightarrow> invar (\<lambda>w. I w \<and> holds a k s w) (with_worker b (\<lambda>f i. body' f i wid))"
  shows "invar (\<lambda>w. I w \<and> holds a k s w) (with_worker b body)"
proof (cases r)
  case (Inl e)
  then show ?thesis
    using assms(1) by (intro with_worker_invar) simp
next
  case (Inr wid)
  have "body = (\<lambda>f i. body' f i wid)"
    by (rule ext)+ (simp add: assms(1) Inr)
  with assms(2) [OF Inr] show ?thesis by simp
qed

text \<open>What an entry of the table says of its pointer.\<close>

lemma entry_conn:
  assumes "I w" and "map_of (workers (wm w)) f = Some i"
  obtains d where "info_conn i = Some d"
  using I_workers [OF assms(1)] assms(2) unfolding workers_ok_def entry_ok_def by blast

lemma authorize_invar: "invar (\<lambda>w. I w \<and> holds a k s w) (handle_authorize J E b req)"
proof -
  let ?r = "if json_is_array J (req_params req) \<and> json_size J (req_params req) > 0
    then string_at J (req_params req) 0 else Inr []"
  let ?body = "\<lambda>f i wid. mthen (update_worker f (\<lambda>i. i\<lparr>worker_id := wid\<rparr>))
       (mbind (get_wm (\<lambda>m. worker_passes m wid)) (\<lambda>allowed.
        mbind (send_line E b (authorize_response (req_id req) allowed)) (\<lambda>_.
        if allowed then update_worker f (\<lambda>i. i\<lparr>worker_authorized := True\<rparr>)
        else reject_worker i)))"
  have r: "(if c then mlift x else mret y) = mlift (if c then x else Inr y)" for c x y
    by (auto simp: mlift_def mret_def)
  have "invar (\<lambda>w. I w \<and> holds a k s w) (with_worker b (\<lambda>f i. ?body f i wid))" for wid
  proof (rule with_worker_invar)
    fix w c i
    assume w: "I w" "holds a k s w" "heap w b = Some c" "map_of (workers (wm w)) (fd c) = Some i"
    obtain d where d: "info_conn i = Some d" using entry_conn [OF w(1,4)] .
    let ?ok = "worker_passes (wm w) wid"
    let ?m = "mthen (update_worker (fd c) (\<lambda>i. i\<lparr>worker_id := wid\<rparr>))
      (mbind (send_line E b (authorize_response (req_id req) ?ok)) (\<lambda>_.
         if ?ok then update_worker (fd c) (\<lambda>i. i\<lparr>worker_authorized := True\<rparr>)
         else mbind (worker_conn i) mark_for_closing))"
    have "?body (fd c) i wid w = ?m w"
      using w(4) passes_cong [of "(wm w)\<lparr>workers := ws\<rparr>" "wm w" wid for ws]
      by (simp add: update_worker_apply mbind_get_wm reject_worker_def)
    with decide_invar [OF w d _ refl refl, where enable = "\<lambda>i. i\<lparr>worker_authorized := True\<rparr>"]
    show "I (snd (?body (fd c) i wid w)) \<and> holds a k s (snd (?body (fd c) i wid w))" by simp
  qed
  then show ?thesis
    unfolding handle_authorize_def r by (rule with_worker_when [OF refl])
qed

lemma login_invar: "invar (\<lambda>w. I w \<and> holds a k s w) (handle_login J E b req)"
proof -
  let ?r = "if json_is_object J (req_params req) \<and> json_contains J (req_params req) ''login''
    then rbind (json_key J (req_params req) ''login'') (json_string J) else Inr []"
  let ?body = "\<lambda>f i wid. mthen (update_worker f (\<lambda>i. i\<lparr>worker_id := wid\<rparr>))
       (mbind (get_wm (\<lambda>m. worker_passes m wid)) (\<lambda>allowed.
        mbind (get_wm (\<lambda>m. if has_job m then Some (current_job m) else None)) (\<lambda>j.
        mbind (send_line E b (login_response (req_id req) f j)) (\<lambda>_.
        if allowed
        then update_worker f (\<lambda>i. i\<lparr>worker_subscribed := True, worker_authorized := True\<rparr>)
        else reject_worker i))))"
  have r: "(if c then mlift x else mret y) = mlift (if c then x else Inr y)" for c x y
    by (auto simp: mlift_def mret_def)
  have "invar (\<lambda>w. I w \<and> holds a k s w) (with_worker b (\<lambda>f i. ?body f i wid))" for wid
  proof (rule with_worker_invar)
    fix w c i
    assume w: "I w" "holds a k s w" "heap w b = Some c" "map_of (workers (wm w)) (fd c) = Some i"
    obtain d where d: "info_conn i = Some d" using entry_conn [OF w(1,4)] .
    let ?ok = "worker_passes (wm w) wid"
    let ?j = "if has_job (wm w) then Some (current_job (wm w)) else None"
    let ?m = "mthen (update_worker (fd c) (\<lambda>i. i\<lparr>worker_id := wid\<rparr>))
      (mbind (send_line E b (login_response (req_id req) (fd c) ?j)) (\<lambda>_.
         if ?ok
         then update_worker (fd c) (\<lambda>i. i\<lparr>worker_subscribed := True, worker_authorized := True\<rparr>)
         else mbind (worker_conn i) mark_for_closing))"
    have "?body (fd c) i wid w = ?m w"
      using w(4) passes_cong [of "(wm w)\<lparr>workers := ws\<rparr>" "wm w" wid for ws]
      by (simp add: update_worker_apply mbind_get_wm reject_worker_def)
    with decide_invar [OF w d _ refl refl,
        where enable = "\<lambda>i. i\<lparr>worker_subscribed := True, worker_authorized := True\<rparr>"]
    show "I (snd (?body (fd c) i wid w)) \<and> holds a k s (snd (?body (fd c) i wid w))" by simp
  qed
  then show ?thesis
    unfolding handle_login_def r by (rule with_worker_when [OF refl])
qed

lemma submit_handler_invar: "invar (\<lambda>w. I w \<and> holds a k s w) (handle_submit J E share_cb b req)"
proof -
  have "invar (\<lambda>w. I w \<and> holds a k s w) (case share_cb of None \<Rightarrow> mret () | Some g \<Rightarrow> g x j n r)" for x j n r
  proof (cases share_cb)
    case (Some g)
    from submit_invar [OF this] Some show ?thesis by simp
  qed (simp add: frame)
  note share = this
  show ?thesis
    unfolding handle_submit_def with_worker_def
    by (intro frame) (auto intro!: frame line_invar share both_prims split: prod.splits)
qed

lemma dispatch_invar: "invar (\<lambda>w. I w \<and> holds a k s w) (dispatch_request J E share_cb b req q)"
  by (cases q) (auto intro: frame subscribe_invar authorize_invar login_invar submit_handler_invar)

lemma on_worker_message_invar: "invar (\<lambda>w. I w \<and> holds a k s w) (on_worker_message J E share_cb b line)"
  unfolding on_worker_message_def by (intro frame both_prims dispatch_invar)

lemma on_worker_state_invar: "invar (\<lambda>w. I w \<and> holds a k s w) (on_worker_state b st)"
  unfolding on_worker_state_def
  by (intro frame both_prims set_wm_invar workers_ok_delete) simp_all

end

section \<open>Failures of the worker manager\<close>

lemma update_worker_safe: "only_fails {Undefined} (update_worker f u)"
  unfolding update_worker_def by (intro safe) auto

lemma worker_conn_safe: "only_fails {Undefined} (worker_conn i)"
  unfolding worker_conn_def by (intro safe) auto

lemma send_job_safe: "only_fails {Undefined} (send_job E j)"
  unfolding send_job_def send_job_to_def by (intro safe worker_conn_safe) auto

lemma send_current_safe: "only_fails {Undefined} (send_current_job E)"
  unfolding send_current_job_def by (intro safe send_job_safe)

lemma accept_worker_safe: "only_fails {Undefined} (accept_worker E)"
  unfolding accept_worker_def adopt_worker_def new_connection_def set_state_def no_callback_def
    set_state_callback_def set_message_callback_def get_connection_def take_extra_nonce2_def
  by (auto intro!: safe send_current_safe add_connection_safe split: prod.splits)

lemma on_worker_state_safe: "only_fails {Undefined} (on_worker_state a st)"
  unfolding on_worker_state_def by (intro safe) auto

lemma with_worker_safe:
  assumes "\<And>f i. only_fails S (body f i)" and "Undefined \<in> S"
  shows "only_fails S (with_worker a body)"
  unfolding with_worker_def by (intro safe assms)

context json_library begin

lemma field_or_empty_fails: "field_or_empty J j k = Inl e \<Longrightarrow> e = Json_exception"
  using key_present [of j k]
  by (auto simp: field_or_empty_def rbind_eq_Inl dest: conversions_fail split: if_splits)

lemma share_fields_fails: "share_fields J req = Inl e \<Longrightarrow> e = Json_exception"
proof -
  assume e: "share_fields J req = Inl e"
  let ?p = "req_params req"
  consider "req_method req = MONERO_SUBMIT \<and> json_is_object J ?p"
    | "\<not> (req_method req = MONERO_SUBMIT \<and> json_is_object J ?p)" "json_is_array J ?p \<and> json_size J ?p \<ge> 4"
    | "\<not> (req_method req = MONERO_SUBMIT \<and> json_is_object J ?p)"
      "\<not> (json_is_array J ?p \<and> json_size J ?p \<ge> 4)" by blast
  then show ?thesis
  proof cases
    case 1
    with e show ?thesis
      unfolding share_fields_def Let_def by (simp add: rbind_eq_Inl) (elim disjE exE conjE; erule field_or_empty_fails)
  next
    case 2
    have at: "string_at J ?p n = Inl e \<Longrightarrow> e = Json_exception" if "n < 4" for n
      using 2(2) that by (intro string_at_fails [of ?p n]) auto
    from e show ?thesis
      unfolding share_fields_def Let_def if_not_P [OF 2(1)] if_P [OF 2(2)]
      using at [of 0, simplified] at [of "Suc 0", simplified] at [of 2, simplified] at [of 3, simplified]
      by (simp add: rbind_eq_Inl) blast
  next
    case 3
    from e show ?thesis
      unfolding share_fields_def Let_def if_not_P [OF 3(1)] if_not_P [OF 3(2)] by simp
  qed
qed

lemma dispatch_safe:
  assumes "\<And>g x j n r. share_cb = Some g \<Longrightarrow> only_fails {Undefined} (g x j n r)"
  shows "only_fails {Undefined, Json_exception} (dispatch_request J E share_cb a req q)"
proof -
  let ?S = "{Undefined, Json_exception}"
  have u: "only_fails ?S (update_worker f u)" for f u by (rule raise_safe [OF update_worker_safe])
  have l: "only_fails ?S (send_line E a x)" for x by (rule raise_safe [OF only_fails_send_line])
  have j: "only_fails ?S (send_current_job E)" by (rule raise_safe [OF send_current_safe])
  have rej: "only_fails ?S (reject_worker i)" for i
    unfolding reject_worker_def mark_for_closing_def
    by (intro safe raise_safe [OF worker_conn_safe]) auto
  have sub: "only_fails ?S (handle_subscribe E a req)"
    unfolding handle_subscribe_def by (intro with_worker_safe safe u l j) auto
  have "only_fails ?S (mlift (string_at J (req_params req) 0))"
    if "json_is_array J (req_params req) \<and> json_size J (req_params req) > 0"
    using that by (auto intro!: only_fails_mlift dest: string_at_fails)
  then have auth: "only_fails ?S (handle_authorize J E a req)"
    unfolding handle_authorize_def by (intro with_worker_safe safe u l rej) auto
  have "only_fails ?S (mlift (rbind (json_key J p ''login'') (json_string J)))" for p
    by (auto intro!: only_fails_mlift simp: rbind_eq_Inl dest: key_fails conversions_fail)
  then have login: "only_fails ?S (handle_login J E a req)"
    unfolding handle_login_def by (intro with_worker_safe safe u l rej) auto
  have "only_fails ?S (mlift (share_fields J req))"
    by (auto intro!: only_fails_mlift dest: share_fields_fails)
  moreover obtain after where "\<And>x j n r. only_fails ?S (after x j n r)" and
    "handle_submit J E share_cb a req = with_worker a (\<lambda>f i.
       mbind (mlift (share_fields J req)) (\<lambda>(w, j, n, r).
       mbind (send_line E a (submit_response (req_id req))) (\<lambda>_. after w j n r)))"
  proof (rule that)
    fix x j n r
    show "only_fails ?S (case share_cb of None \<Rightarrow> mret () | Some g \<Rightarrow> g x j n r)"
      using assms by (auto intro: safe raise_safe split: option.split)
  qed (simp add: handle_submit_def)
  ultimately have submit: "only_fails ?S (handle_submit J E share_cb a req)"
    by (auto intro!: with_worker_safe safe l split: prod.splits)
  show ?thesis
    by (cases q) (auto intro: safe sub auth login submit)
qed

text \<open>No exception leaves the handler of a worker's requests.\<close>

lemma on_worker_message_safe:
  assumes "\<And>g x j n r. share_cb = Some g \<Longrightarrow> only_fails {Undefined} (g x j n r)"
  shows "only_fails {Undefined} (on_worker_message J E share_cb a line)"
proof -
  have "only_fails {Undefined, Json_exception}
    (mbind (ask (\<lambda>n. memory E n)) (\<lambda>g. mbind (mlift (stratum_parse J g line)) (\<lambda>req.
        dispatch_request J E share_cb a req (req_method req))))"
    by (intro safe lift_fails dispatch_safe assms)
  then have "only_fails {Undefined}
    (mcatch (mbind (ask (\<lambda>n. memory E n)) (\<lambda>g. mbind (mlift (stratum_parse J g line)) (\<lambda>req.
        dispatch_request J E share_cb a req (req_method req)))) (mret ()))"
    by (rule only_fails_mcatch) (auto intro: safe)
  then show ?thesis
    unfolding on_worker_message_def
    by - (rule only_fails_mbind [OF only_fails_deref], simp_all)
qed

end

section \<open>A proxy with one worker\<close>

definition demo_worker_conn :: connection where
  "demo_worker_conn = worker_connection_object 1 6 ''worker:10.0.0.7:4000''"

definition demo_info :: worker_info where
  "demo_info = new_worker 1 ''00000000''"

definition demo_workers :: worker_manager where
  "demo_workers = (new_worker_manager no_garbage 3334 [\<lparr>worker_cfg_id = ''rig'', worker_cfg_password = ''x''\<rparr>])
     \<lparr>listen_fd := 4, workers := [(6, demo_info)], next_extra_nonce2 := 1\<rparr>"

text \<open>The pool on descriptor 5, object 0; the worker on descriptor 6, object 1.\<close>

definition demo_proxy :: proxy where
  "demo_proxy = \<lparr>heap = [0 \<mapsto> demo_pool_conn, 1 \<mapsto> demo_worker_conn], next_addr = 2,
     open_fds = [6, 5, 4, 0, 1, 2], ticks = 0, effects = [], connections = [(5, 0), (6, 1)],
     timeouts = [tick_timer], running = True, pool = demo_manager, wm = demo_workers\<rparr>"

lemma demo_proxy_fields [simp]:
  "heap demo_proxy = [0 \<mapsto> demo_pool_conn, 1 \<mapsto> demo_worker_conn]" "next_addr demo_proxy = 2"
  "open_fds demo_proxy = [6, 5, 4, 0, 1, 2]" "ticks demo_proxy = 0" "effects demo_proxy = []"
  "connections demo_proxy = [(5, 0), (6, 1)]" "timeouts demo_proxy = [tick_timer]"
  "running demo_proxy" "pool demo_proxy = demo_manager" "wm demo_proxy = demo_workers"
  by (simp_all add: demo_proxy_def)

lemma demo_worker_conn_fields [simp]:
  "fd demo_worker_conn = 6" "ctype demo_worker_conn = WORKER" "state demo_worker_conn = CONNECTED"
  "pimpl demo_worker_conn = Some fresh_impl" "worker_object 1 demo_worker_conn"
  by (simp_all add: demo_worker_conn_def worker_connection_object_def fresh_connection_def worker_object_def)

lemma demo_info_fields [simp]:
  "info_conn demo_info = Some 1" "\<not> worker_authorized demo_info" "\<not> worker_subscribed demo_info"
  by (simp_all add: demo_info_def new_worker_def)

lemma demo_workers_fields [simp]:
  "workers demo_workers = [(6, demo_info)]" "listen_fd demo_workers = 4"
  "worker_configs demo_workers = [\<lparr>worker_cfg_id = ''rig'', worker_cfg_password = ''x''\<rparr>]"
  "require_whitelist demo_workers" "\<not> has_job demo_workers" "next_extra_nonce2 demo_workers = 1"
  by (simp_all add: demo_workers_def new_worker_manager_def)

lemma demo_pool_conn_type [simp]: "ctype demo_pool_conn = POOL" "pool_object demo_pool_conn"
  by (simp_all add: demo_pool_conn_def pool_connection_object_def outgoing_def fresh_connection_def
      pool_object_def)

lemma demo_proxy_ok:
  "loop_wf demo_proxy" "loop_owned demo_proxy" "workers_ok demo_proxy demo_workers"
  by (auto simp: loop_wf_def heap_wf_def table_wf_def loop_owned_def workers_ok_def entry_ok_def
      points_to_def split: if_splits)

section \<open>Who is let in\<close>

text \<open>Property C24: the answer to a worker's login.  The name is recorded; the worker is subscribed and
  authorised if there is no whitelist or its name is on it; if not, its flags stay as they were and
  its connection is marked for closing.  The entries of the other workers, the job and the whitelist
  do not change.\<close>

theorem login_decides:
  assumes "loop_wf w" and "heap w a = Some c" and "map_of (workers (wm w)) (fd c) = Some i"
    and "json_is_object J (req_params req)" and "json_contains J (req_params req) ''login''"
    and "rbind (json_key J (req_params req) ''login'') (json_string J) = Inr x"
    and "info_conn i = Some d" and "heap w d \<noteq> None"
  shows "\<exists>w' i'. handle_login J E a req w = (Inr (), w') \<and>
    map_of (workers (wm w')) = (map_of (workers (wm w)))(fd c \<mapsto> i') \<and> worker_id i' = x \<and>
    worker_configs (wm w') = worker_configs (wm w) \<and> current_job (wm w') = current_job (wm w) \<and>
    (if require_whitelist (wm w) \<longrightarrow> (\<exists>cfg \<in> set (worker_configs (wm w)). worker_cfg_id cfg = x)
     then worker_subscribed i' \<and> worker_authorized i'
     else worker_subscribed i' = worker_subscribed i \<and> worker_authorized i' = worker_authorized i \<and>
       doomed w' d)"
proof -
  let ?ok = "require_whitelist (wm w) \<longrightarrow> (\<exists>cfg \<in> set (worker_configs (wm w)). worker_cfg_id cfg = x)"
  have ok: "worker_passes (wm w) x = ?ok"
    by (auto simp: worker_passes_def is_worker_allowed_def list_ex_iff)
  have ok': "worker_passes ((wm w)\<lparr>workers := ws\<rparr>) x = ?ok" for ws
    using passes_cong [of "(wm w)\<lparr>workers := ws\<rparr>" "wm w" x] ok by simp
  obtain j where "pimpl c = Some j" using loop_wf_object [OF assms(1,2)] .
  let ?line = "login_response (req_id req) (fd c) (if has_job (wm w) then Some (current_job (wm w)) else None)"
  from send_line_wm [OF assms(2) \<open>pimpl c = Some j\<close>, of E ?line] obtain r w1 where
    1: "\<And>m. send_line E a ?line (w\<lparr>wm := m\<rparr>) = (Inr r, w1\<lparr>wm := m\<rparr>)" and
    2: "\<And>d c. heap w d = Some c \<Longrightarrow> \<exists>c'. heap w1 d = Some c' \<and> evolves c c'"
    by metis
  from assms(8) 2 obtain e where e: "heap w1 d = Some e" by blast
  let ?m = "\<lambda>i'. (wm w)\<lparr>workers := AList.update (fd c) i' (workers (wm w))\<rparr>"
  show ?thesis
  proof (cases ?ok)
    case True
    let ?i = "i\<lparr>worker_id := x, worker_subscribed := True, worker_authorized := True\<rparr>"
    have "handle_login J E a req w = (Inr (), w1\<lparr>wm := ?m ?i\<rparr>)"
      using assms(2-6) ok' 1 True
      by (cases "has_job (wm w)") (simp_all add: handle_login_def with_worker_def update_worker_apply mbind_get_wm)
    with True show ?thesis
      by (intro exI [of _ "w1\<lparr>wm := ?m ?i\<rparr>"] exI [of _ ?i]) simp
  next
    case False
    let ?i = "i\<lparr>worker_id := x\<rparr>"
    let ?w = "w1\<lparr>wm := ?m ?i, heap := (heap w1)(d \<mapsto> e\<lparr>should_close := True\<rparr>)\<rparr>"
    have "handle_login J E a req w = (Inr (), ?w)"
      using assms(2-7) ok' 1 e False
      by (cases "has_job (wm w)") (simp_all add: handle_login_def with_worker_def update_worker_apply mbind_get_wm reject_worker_def
          worker_conn_def)
    with False show ?thesis
      by (intro exI [of _ ?w] exI [of _ ?i]) (simp add: doomed_def)
  qed
qed

definition login_request :: "string \<Rightarrow> json stratum_request" where
  "login_request name = \<lparr>req_id = 1, req_method = LOGIN, req_params = Object [(''login'', Text name)]\<rparr>"

theorem login_decides_witness:
  "\<exists>w' i'. handle_login ref_json calm_env 1 (login_request ''mallory'') demo_proxy = (Inr (), w') \<and>
    map_of (workers (wm w')) 6 = Some i' \<and> worker_id i' = ''mallory'' \<and> \<not> worker_authorized i' \<and> doomed w' 1"
  using login_decides [OF demo_proxy_ok(1), of 1 demo_worker_conn demo_info ref_json
      "login_request ''mallory''" "''mallory''" 1 calm_env]
  by (auto simp: login_request_def)

text \<open>A share is taken from every worker that has an entry, authorised or not: the worker
  is told that it was accepted, before any pool has seen it, and the share is passed on under the name
  it carries, so the whitelist does not restrict who may submit.\<close>

theorem submit_needs_no_authorization:
  assumes "heap w a = Some c" and "map_of (workers (wm w)) (fd c) = Some i"
    and "\<not> worker_authorized i" and "share_fields J req = Inr (x, j, n, r)"
    and "send_line E a (submit_response (req_id req)) w = (Inr sent, w1)"
  shows "handle_submit J E (Some cb) a req w = cb x j n r w1"
  using assms by (simp add: handle_submit_def with_worker_def)

definition record_share :: "string \<Rightarrow> string \<Rightarrow> string \<Rightarrow> string \<Rightarrow> ('z proxy_scheme, unit) M" where
  "record_share x j n r = emit (Printed (x @ '' '' @ j @ '' '' @ n @ '' '' @ r))"

lemma demo_proxy_send:
  "send_line calm_env 1 line demo_proxy = (Inr True,
     demo_proxy\<lparr>ticks := 1, effects := [Sent 6 (line @ [newline])]\<rparr>)"
proof -
  have "write_answer calm_env demo_proxy 1 demo_worker_conn fresh_impl line = (int (Suc (length line)), Ssl_other 0)"
    by (simp add: write_answer_def)
  from send_line_apply [OF _ _ _ this] show ?thesis
    by (simp add: is_connected_def less_eq_connection_state_def nat_add_distrib)
qed

theorem submit_needs_no_authorization_witness:
  "handle_submit ref_json calm_env (Some record_share) 1
     \<lparr>req_id = 7, req_method = SUBMIT, req_params = submit_params\<rparr> demo_proxy =
   record_share ''rig'' ''j1'' ''00ff'' ''beef''
     (demo_proxy\<lparr>ticks := 1, effects := [Sent 6 (submit_response 7 @ [newline])]\<rparr>)"
proof -
  have "share_fields ref_json \<lparr>req_id = 7, req_method = SUBMIT, req_params = submit_params\<rparr>
      = Inr (''rig'', ''j1'', ''00ff'', ''beef'')"
    by (simp add: share_fields_def submit_params_def string_at_def Let_def numeral_2_eq_2 numeral_3_eq_3)
  then show ?thesis
    using submit_needs_no_authorization [of demo_proxy 1 demo_worker_conn demo_info ref_json
        "\<lparr>req_id = 7, req_method = SUBMIT, req_params = submit_params\<rparr>"] demo_proxy_send
    by simp
qed

text \<open>The answer to a subscription contains a newline, because the raw string literal
  swallows the C++ text around the descriptor, so it goes out as two lines, neither of which holds the
  descriptor.\<close>

theorem subscribe_response_is_two_lines:
  "fst (split_lines (subscribe_response i @ [newline])) =
     [''{\"id\": '' @ show_int i @ '', \"result\": [[[\"mining.notify\", \"]\" + std::to_string(fd) +'',
      ''        R\"(\"], \"\"], \"8\"], \"error\": null}'']"
proof -
  have d: "newline \<notin> set (show_base 10 n)" for n
    using digits_show_base [of n] by (auto simp: list_all_iff is_digit_def)
  then have n: "newline \<notin> set (show_int i)" by (simp add: show_int_def show_nat_def)
  let ?l1 = "''{\"id\": '' @ show_int i @ '', \"result\": [[[\"mining.notify\", \"]\" + std::to_string(fd) +''"
  let ?l2 = "''        R\"(\"], \"\"], \"8\"], \"error\": null}''"
  have "newline \<notin> set ?l1" "newline \<notin> set ?l2" using n by simp_all
  then have "split_lines (concat (map (\<lambda>l. l @ [newline]) [?l1, ?l2]) @ []) = ([?l1, ?l2], [])"
    by (intro split_lines_unlines) simp_all
  moreover have "concat (map (\<lambda>l. l @ [newline]) [?l1, ?l2]) @ [] = subscribe_response i @ [newline]"
    by (simp add: subscribe_response_def)
  ultimately have "split_lines (subscribe_response i @ [newline]) = ([?l1, ?l2], [])" by (simp only:)
  then show ?thesis by (simp only: fst_conv)
qed

text \<open>An entry whose connection was destroyed is undefined behaviour as soon as a job is
  sent to it: \<open>send_job\<close> goes through the stored pointer.\<close>

theorem stale_worker_is_undefined:
  assumes "map_of (workers (wm w)) f = Some i" and "worker_subscribed i" and "worker_authorized i"
    and "info_conn i = Some a" and "heap w a = None"
  shows "send_job_to E j f w = (Inl Undefined, w)"
  using assms by (simp add: send_job_to_def worker_conn_def send_line_def)

theorem stale_worker_is_undefined_witness:
  "fst (send_job_to calm_env empty_job 6 (demo_proxy\<lparr>heap := (heap demo_proxy)(1 := None),
     wm := demo_workers\<lparr>workers := [(6, demo_info\<lparr>worker_subscribed := True, worker_authorized := True\<rparr>)]\<rparr>\<rparr>))
   = Inl Undefined"
  by (subst stale_worker_is_undefined [where a = 1 and i = "demo_info\<lparr>worker_subscribed := True,
      worker_authorized := True\<rparr>"]) simp_all

section \<open>Who gets a job\<close>

definition eligible :: "worker_manager \<Rightarrow> int \<Rightarrow> bool" where
  "eligible m f \<longleftrightarrow> (case map_of (workers m) f of None \<Rightarrow> False
     | Some i \<Rightarrow> worker_subscribed i \<and> worker_authorized i)"

text \<open>The connections of the eligible workers exist, are plain and up, and the kernel takes each line whole.\<close>

definition deliverable :: "env \<Rightarrow> 'z net_scheme \<Rightarrow> worker_manager \<Rightarrow> bool" where
  "deliverable E w m \<longleftrightarrow>
     (\<forall>n f s. sys_write E n f s = int (length s)) \<and>
     (\<forall>f i a. map_of (workers m) f = Some i \<longrightarrow> eligible m f \<longrightarrow> info_conn i = Some a \<longrightarrow>
        (\<exists>c j. heap w a = Some c \<and> pimpl c = Some j \<and> \<not> ssl j \<and> is_connected c))"

lemma send_job_to_apply:
  assumes "deliverable E w (wm w)" and "workers_ok w (wm w)" and "map_of (workers (wm w)) f = Some i"
  shows "send_job_to E j f w = (Inr (), w\<lparr>ticks := ticks w + (if eligible (wm w) f then 1 else 0),
     effects := effects w @ (if eligible (wm w) f then [Sent f (job_message j @ [newline])] else [])\<rparr>)"
proof (cases "eligible (wm w) f")
  case False
  with assms(3) show ?thesis by (auto simp: send_job_to_def eligible_def)
next
  case True
  obtain a where a: "info_conn i = Some a" "points_to w f a"
    using assms(2,3) unfolding workers_ok_def entry_ok_def by blast
  obtain c k where c: "heap w a = Some c" "pimpl c = Some k" "\<not> ssl k" "is_connected c"
    using assms(1,3) True a(1) unfolding deliverable_def by blast
  have f: "fd c = f" using a(2) c(1) by (simp add: points_to_def)
  have "write_answer E w a c k (job_message j) = (int (Suc (length (job_message j))), Ssl_other 0)"
    using assms(1) c(3) by (simp add: write_answer_def deliverable_def)
  from send_line_apply [OF c(1,2) _ this] c f
  have "send_line E a (job_message j) w = (Inr True, w\<lparr>ticks := Suc (ticks w),
      effects := effects w @ [Sent f (job_message j @ [newline])]\<rparr>)"
    by (simp add: nat_add_distrib)
  with True a(1) assms(3) show ?thesis
    by (simp add: send_job_to_def worker_conn_def eligible_def)
qed

lemma send_job_to_all:
  assumes "deliverable E w (wm w)" and "workers_ok w (wm w)"
    and "\<forall>f \<in> set fs. map_of (workers (wm w)) f \<noteq> None"
  shows "mfor fs (send_job_to E j) w = (Inr (), w\<lparr>ticks := ticks w + length (filter (eligible (wm w)) fs),
     effects := effects w @ map (\<lambda>f. Sent f (job_message j @ [newline])) (filter (eligible (wm w)) fs)\<rparr>)"
  using assms
proof (induction fs arbitrary: w)
  case Nil
  then show ?case by simp
next
  case (Cons f fs)
  let ?e = "eligible (wm w) f"
  let ?w = "w\<lparr>ticks := ticks w + (if ?e then 1 else 0),
     effects := effects w @ (if ?e then [Sent f (job_message j @ [newline])] else [])\<rparr>"
  from Cons.prems(3) obtain i where "map_of (workers (wm w)) f = Some i" by auto
  from send_job_to_apply [OF Cons.prems(1,2) this] have 1: "send_job_to E j f w = (Inr (), ?w)" .
  have "workers_ok ?w (wm ?w)"
    using Cons.prems(2) by (simp add: workers_ok_def entry_ok_def points_to_def doomed_def)
  moreover have "deliverable E ?w (wm ?w)" using Cons.prems(1) by (simp add: deliverable_def)
  moreover have "\<forall>f \<in> set fs. map_of (workers (wm ?w)) f \<noteq> None" using Cons.prems(3) by simp
  ultimately have "mfor fs (send_job_to E j) ?w = (Inr (), ?w\<lparr>ticks := ticks ?w + length (filter (eligible (wm ?w)) fs),
     effects := effects ?w @ map (\<lambda>f. Sent f (job_message j @ [newline])) (filter (eligible (wm ?w)) fs)\<rparr>)"
    by (intro Cons.IH)
  with 1 show ?case by (cases ?e) simp_all
qed

lemma send_job_result:
  assumes "environment E" and "workers_ok w (wm w)" and "deliverable E w (wm w)"
  obtains n fs where "distinct fs" "set fs = {f. eligible (wm w) f}"
    "send_job E j w = (Inr (), w\<lparr>wm := (wm w)\<lparr>current_job := j, has_job := True\<rparr>, ticks := n,
       effects := effects w @ map (\<lambda>f. Sent f (job_message j @ [newline])) fs\<rparr>)"
proof -
  let ?m = "(wm w)\<lparr>current_job := j, has_job := True\<rparr>"
  let ?ks = "map fst (workers (wm w))"
  have el: "eligible ?m = eligible (wm w)" by (rule ext) (simp add: eligible_def)
  have keys: "eligible (wm w) f \<Longrightarrow> f \<in> set ?ks" for f
    by (auto simp: eligible_def split: option.splits dest: map_of_SomeD intro: rev_image_eqI)
  show thesis
  proof (cases "workers (wm w) = []")
    case True
    then have "{f. eligible (wm w) f} = {}" by (simp add: eligible_def)
    with True show thesis
      by (intro that [of "[]" "ticks w"]; cases w) (simp_all add: send_job_def mthen_def mbind_get_wm)
  next
    case False
    let ?w = "w\<lparr>wm := ?m, ticks := Suc (ticks w)\<rparr>"
    let ?fs = "hash_order E (ticks w) ?ks"
    have fs: "set ?fs = set ?ks" "distinct ?fs"
      using assms(1,2) by (simp_all add: environment.order_set environment.order_distinct workers_ok_def)
    have ok: "workers_ok w ?m" using assms(2) by (rule workers_ok_same) simp_all
    then have "workers_ok ?w (wm ?w)"
      by (simp add: workers_ok_def entry_ok_def points_to_def doomed_def)
    moreover have "deliverable E ?w (wm ?w)" using assms(3) el by (simp add: deliverable_def)
    moreover have "\<forall>f \<in> set ?fs. map_of (workers (wm ?w)) f \<noteq> None"
      using fs(1) by (simp add: map_of_eq_None_iff)
    ultimately have "mfor ?fs (send_job_to E j) ?w = (Inr (), ?w\<lparr>ticks := ticks ?w + length (filter (eligible (wm ?w)) ?fs),
       effects := effects ?w @ map (\<lambda>f. Sent f (job_message j @ [newline])) (filter (eligible (wm ?w)) ?fs)\<rparr>)"
      by (intro send_job_to_all)
    then have "send_job E j w = (Inr (), ?w\<lparr>ticks := ticks ?w + length (filter (eligible (wm w)) ?fs),
       effects := effects w @ map (\<lambda>f. Sent f (job_message j @ [newline])) (filter (eligible (wm w)) ?fs)\<rparr>)"
      using False el by (simp add: send_job_def mthen_def mbind_get_wm)
    moreover have "set (filter (eligible (wm w)) ?fs) = {f. eligible (wm w) f}" using fs(1) keys by auto
    ultimately show thesis
      using fs(2) by (intro that [of "filter (eligible (wm w)) ?fs"]) simp_all
  qed
qed



section \<open>Accepting\<close>

text \<open>Property C26: accepting a worker.  When \<open>accept\<close> yields a descriptor, the loop gets a connected
  object for it with this manager's callbacks, the table gets an entry for it that points to this
  object and is neither subscribed nor authorised, with the next extra nonce, and the counter moves
  on; every other entry stays.  Then the current job, if there is one, is sent out again.\<close>

theorem accept_enrols:
  assumes "environment E" and "loop_wf w" and "0 \<le> listen_fd (wm w)"
    and "sys_accept E (ticks w) (open_fds w) (listen_fd (wm w)) = (f, err, ip, port)" and "0 \<le> f"
  shows "\<exists>w' c. accept_worker E w = send_current_job E w' \<and>
    heap w' = (heap w)(next_addr w \<mapsto> c) \<and> worker_object (next_addr w) c \<and> fd c = f \<and> state c = CONNECTED \<and>
    f \<notin> set (open_fds w) \<and> map_of (connections w') = (map_of (connections w))(f \<mapsto> next_addr w) \<and>
    map_of (workers (wm w')) = (map_of (workers (wm w)))(f \<mapsto> \<lparr>info_conn = Some (next_addr w), worker_id = [],
      worker_subscribed = False, worker_authorized = False,
      extra_nonce2 = show_hex_padded 8 (unat (next_extra_nonce2 (wm w)))\<rparr>) \<and>
    next_extra_nonce2 (wm w') = next_extra_nonce2 (wm w) + 1"
proof -
  let ?c = "worker_connection_object (next_addr w) f (worker_name ip port)"
  let ?w = "w\<lparr>ticks := Suc (ticks w)\<rparr>"
  let ?w' = "with_connection f ?c (w\<lparr>ticks := Suc (Suc (ticks w))\<rparr>)\<lparr>wm := enrol f (next_addr w) (wm w)\<rparr>"
  have f: "f \<notin> set (open_fds w)"
    using environment.accept_fresh [OF assms(1), of "ticks w" "open_fds w" "listen_fd (wm w)"] assms(4,5)
    by simp
  have "loop_wf ?w" using assms(2) by (rule wf_inv.W_ticks)
  from adopt_worker_apply [OF this, of f E "worker_name ip port"] f assms(3-5)
  have "accept_worker E w = send_current_job E ?w'"
    by (simp add: accept_worker_def register_fd_def mthen_def mbind_get_wm)
  with f show ?thesis
    by (intro exI [of _ ?w'] exI [of _ ?c]) (simp add: with_connection_def enrol_def new_worker_def)
qed

theorem accept_enrols_witness:
  "\<exists>w' c. accept_worker calm_env demo_proxy = send_current_job calm_env w' \<and>
    heap w' 2 = Some c \<and> fd c = 7 \<and> map_of (connections w') 7 = Some 2 \<and>
    extra_nonce2 (the (map_of (workers (wm w')) 7)) = ''00000001''"
proof -
  have "fresh_fd [6, 5, 4, 0, 1, 2] = 7" "show_hex_padded 8 1 = ''00000001''" by code_simp+
  with accept_enrols [OF calm.environment_axioms demo_proxy_ok(1), of 7 "Eother 0" "''10.0.0.7''" 4000]
  show ?thesis by fastforce
qed

lemma length_show_base: "2 \<le> b \<Longrightarrow> 0 < k \<Longrightarrow> n < b ^ k \<Longrightarrow> length (show_base b n) \<le> k"
proof (induction k arbitrary: n)
  case (Suc k)
  show ?case
  proof (cases "n < b")
    case True
    then show ?thesis by (subst show_base.simps) simp
  next
    case False
    with Suc.prems have "0 < k" by (cases k) auto
    moreover have "n div b < b ^ k"
      using Suc.prems by (simp add: less_mult_imp_div_less mult.commute)
    ultimately have "length (show_base b (n div b)) \<le> k" using Suc by simp
    with False Suc.prems(1) show ?thesis by (subst show_base.simps) simp
  qed
qed simp

text \<open>Property C27: An extra nonce has exactly eight characters and reads back as the counter, so two
  workers get the same one only when the counter has gone through all its 2 ^ 32 values.\<close>

theorem extra_nonce_unique:
  "\<exists>s w'. take_extra_nonce2 w = (Inr s, w') \<and> length s = 8 \<and>
    read_base 16 s = unat (next_extra_nonce2 (wm w)) \<and>
    next_extra_nonce2 (wm w') = next_extra_nonce2 (wm w) + 1 \<and>
    (\<forall>n :: 32 word. show_hex_padded 8 (unat n) = s \<longleftrightarrow> n = next_extra_nonce2 (wm w))"
proof -
  have l: "length (show_base 16 (unat n)) \<le> 8" for n :: "32 word"
  proof -
    have "unat n < 2 ^ LENGTH(32)" by (rule unsigned_less)
    then show ?thesis using length_show_base [of 16 8 "unat n"] by simp
  qed
  have r: "read_base 16 (show_hex_padded 8 (unat n)) = unat n" for n :: "32 word"
    by (simp add: show_hex_padded_def Let_def read_show_base)
  have len: "length (show_hex_padded 8 (unat n)) = 8" for n :: "32 word"
    using l [of n] by (simp add: show_hex_padded_def Let_def)
  have "show_hex_padded 8 (unat n) = show_hex_padded 8 (unat m) \<longleftrightarrow> n = m" for n m :: "32 word"
    using r by (metis word_unat_eq_iff)
  then show ?thesis using r len by (simp add: take_extra_nonce2_def mbind_get_wm mthen_def)
qed

end
