(* ===== verification/Proxy.thy ===== *)
theory Proxy
  imports Worker_Manager
begin

text \<open>
  The process: class \<open>GPUProxy\<close> and \<open>main\<close> of \<open>src/gpu-proxy-cpp/src/main.cpp\<close>.  The callbacks that
  wire the pool manager and the worker manager to each other, the dispatch of the closures and timers
  the components install, start-up and the run of the event loop.
\<close>

section \<open>The wiring\<close>

definition show_bool :: "bool \<Rightarrow> string" where
  "show_bool b = (if b then ''1'' else ''0'')"

text \<open>\<open>std::cout << ... << std::endl\<close>.\<close>

definition print_line :: "string \<Rightarrow> ('z net_scheme, unit) M" where
  "print_line s = emit (Printed (s @ [newline]))"

definition on_job :: "env \<Rightarrow> job \<Rightarrow> ('z proxy_scheme, unit) M" where
  "on_job E j =
     mbind (get_wm worker_count) (\<lambda>n.
     mthen (print_line (''[gpu-proxy] Received job '' @ job_id j @ '', distributing to '' @ show_nat n @
                        '' workers''))
           (send_job E j))"

definition on_share_response :: "string \<Rightarrow> bool \<Rightarrow> string \<Rightarrow> ('z proxy_scheme, unit) M" where
  "on_share_response w accepted error =
     print_line (''[gpu-proxy] Share response for '' @ w @ '': accepted='' @ show_bool accepted @
                 '' error='' @ error)"

definition on_pool_change :: "string \<Rightarrow> bool \<Rightarrow> ('z proxy_scheme, unit) M" where
  "on_pool_change name b =
     print_line (''[gpu-proxy] Pool '' @ name @ '' is now '' @
                 (if b then ''CONNECTED'' else ''DISCONNECTED''))"

definition wired :: "env \<Rightarrow> ('z proxy_scheme) pool_callbacks" where
  "wired E = \<lparr>job_cb = Some (on_job E), share_response_cb = Some on_share_response,
     pool_state_cb = Some on_pool_change\<rparr>"

definition on_share :: "env \<Rightarrow> string \<Rightarrow> string \<Rightarrow> string \<Rightarrow> string \<Rightarrow> ('z proxy_scheme, unit) M" where
  "on_share E w j n r =
     mthen (print_line (''[gpu-proxy] Submitting share from '' @ w @ '' job='' @ j @ '' nonce='' @ n))
           (submit_share E w j n r)"

text \<open>What the installed closures and timers do.\<close>

fun on_message :: "'j json_lib \<Rightarrow> env \<Rightarrow> ('z proxy_scheme) message_handler" where
  "on_message J E Pool_closure line = on_pool_message J E (wired E) line"
| "on_message J E (Worker_closure a) line = on_worker_message J E (Some (on_share E)) a line"

fun on_state :: "env \<Rightarrow> ('z proxy_scheme) state_handler" where
  "on_state E Pool_closure s = on_pool_state E (wired E) s"
| "on_state E (Worker_closure a) s = on_worker_state a s"

fun fire_timer :: "env \<Rightarrow> timer \<Rightarrow> ('z proxy_scheme, unit) M" where
  "fire_timer E Accept_timer = accept_worker E"
| "fire_timer E Reconnect_timer = mbind (get_pool current_pool_index) (try_connect_pool E)"

section \<open>Start-up\<close>

text \<open>
  The world after \<open>GPUProxy::start\<close> has created its managers.  The descriptors 0, 1 and 2 are open.
\<close>

definition initial_world :: "garbage \<Rightarrow> proxy_config \<Rightarrow> proxy" where
  "initial_world g cfg =
     \<lparr>heap = (\<lambda>_. None), next_addr = 0, open_fds = [0, 1, 2], ticks = 0, effects = [],
      connections = [], timeouts = [], running = False,
      pool = new_pool_manager g (pools cfg),
      wm = new_worker_manager g (listen_port cfg) (worker_cfgs cfg)\<rparr>"

definition proxy_start :: "env \<Rightarrow> proxy_config \<Rightarrow> (proxy, bool) M" where
  "proxy_start E cfg =
     mthen (print_line ''[gpu-proxy] Starting GPU Proxy v2.0.0'')
     (mthen (print_line (''[gpu-proxy] Loaded '' @ show_nat (length (pools cfg)) @ '' pools''))
     (if pools cfg = [] then mret False
      else
        mthen (pool_start E)
        (mthen (worker_start E)
        (mthen (print_line (''[gpu-proxy] Ready, listening on port '' @
                            show_nat (unat (listen_port cfg))))
        (mret True)))))"

definition proxy_run :: "nat \<Rightarrow> 'j json_lib \<Rightarrow> env \<Rightarrow> (proxy, unit) M" where
  "proxy_run fuel J E = run fuel E (on_message J E) (on_state E) (fire_timer E)"

definition proxy_stop :: "(proxy, unit) M" where
  "proxy_stop = stop"

section \<open>The main function\<close>

text \<open>The command line: the configuration path, or \<open>None\<close> when help is asked for.\<close>

fun parse_arguments :: "string \<Rightarrow> string list \<Rightarrow> string option" where
  "parse_arguments path [] = Some path"
| "parse_arguments path (a # rest) =
     (case rest of
        p # rest' \<Rightarrow>
          if a = ''--config'' then parse_arguments p rest'
          else if a = ''--help'' \<or> a = ''-h'' then None
          else parse_arguments path rest
      | [] \<Rightarrow> if a = ''--help'' \<or> a = ''-h'' then None else Some path)"

definition default_config_path :: string where
  "default_config_path = ''/etc/gpu-proxy/config.json''"

text \<open>
  \<open>main\<close> after the command line: \<open>contents\<close> is the configuration file and \<open>signalled\<close> says whether a
  signal has already cleared the global flag \<open>running\<close> when the loop would start.  The result is the
  exit status; an exception ends in the handler, which returns 1.
\<close>

text \<open>The destructor of \<open>GPUProxy\<close>: its members go in reverse order of their declaration.\<close>

definition delete_proxy :: "env \<Rightarrow> (proxy, unit) M" where
  "delete_proxy E = mthen delete_worker_manager (delete_event_loop E)"

text \<open>The scope of the \<open>GPUProxy\<close> object in \<open>main\<close>, without its destructor.\<close>

definition proxy_scope :: "nat \<Rightarrow> 'j json_lib \<Rightarrow> env \<Rightarrow> bool \<Rightarrow> proxy_config \<Rightarrow> (proxy, int) M" where
  "proxy_scope fuel J E signalled cfg =
     mbind (proxy_start E cfg) (\<lambda>ok.
     if \<not> ok then mret 1
     else mthen (mwhen (\<not> signalled) (proxy_run fuel J E))
          (mthen proxy_stop
          (mthen (print_line ''[gpu-proxy] Shutdown complete'') (mret 0))))"

definition serve :: "nat \<Rightarrow> 'j json_lib \<Rightarrow> env \<Rightarrow> bool \<Rightarrow> proxy_config \<Rightarrow> (proxy, int) M" where
  "serve fuel J E signalled cfg =
     mcatch
       (mfinally (proxy_scope fuel J E signalled cfg) (delete_proxy E))
       (mret 1)"

definition main ::
    "nat \<Rightarrow> 'j json_lib \<Rightarrow> env \<Rightarrow> bool \<Rightarrow> (string \<Rightarrow> string option) \<Rightarrow> string list \<Rightarrow> int result" where
  "main fuel J E signalled files args =
     (case parse_arguments default_config_path args of
        None \<Rightarrow> Inr 0
      | Some path \<Rightarrow>
          (case load_from_file J (memory E 0) path (files path) of
             Inl e \<Rightarrow> if std_exception e then Inr 1 else Inl e
           | Inr cfg \<Rightarrow> fst (serve fuel J E signalled cfg (initial_world (memory E 0) cfg))))"

text \<open>
  The handler of SIGINT and SIGTERM clears the global flag of \<open>main.cpp\<close>; the event loop's own flag is
  another variable.  \<open>poll\<close> returns early with \<open>EINTR\<close>.
\<close>

definition signal_handler :: "int \<Rightarrow> bool \<Rightarrow> (proxy, bool) M" where
  "signal_handler signum global_running =
     mthen (print_line ([newline] @ ''[gpu-proxy] Received signal '' @ show_int signum @
                        '', shutting down...''))
           (mret False)"

section \<open>The invariant of the proxy\<close>

text \<open>
  Every object carries the closures of its kind, and the pool manager's pointer, as long as its
  target exists, is a pool connection with the recorded descriptor.
\<close>

definition callbacks_ok :: "'z net_scheme \<Rightarrow> bool" where
  "callbacks_ok w \<longleftrightarrow> (\<forall>a c. heap w a = Some c \<longrightarrow> pool_object c \<or> worker_object a c)"

definition pool_link :: "'z net_scheme \<Rightarrow> pool_manager \<Rightarrow> bool" where
  "pool_link w p \<longleftrightarrow> (\<forall>a. pool_conn p = Some a \<longrightarrow>
     a < next_addr w \<and> (\<forall>c. heap w a = Some c \<longrightarrow> ctype c = POOL \<and> fd c = pool_fd p))"

text \<open>
  The open descriptors are the three standard ones, the listening one and those of the connections in
  the table, and none of them serves two purposes.
\<close>

definition listening :: "worker_manager \<Rightarrow> int set" where
  "listening m = (if 0 \<le> listen_fd m then {listen_fd m} else {})"

definition fds_accounted :: "'z proxy_scheme \<Rightarrow> bool" where
  "fds_accounted w \<longleftrightarrow>
     set (open_fds w) = {0, 1, 2} \<union> listening (wm w) \<union> dom (map_of (connections w)) \<and>
     listening (wm w) \<inter> {0, 1, 2} = {} \<and>
     ({0, 1, 2} \<union> listening (wm w)) \<inter> dom (map_of (connections w)) = {}"

definition proxy_ok :: "'z proxy_scheme \<Rightarrow> bool" where
  "proxy_ok w \<longleftrightarrow> loop_wf w \<and> loop_owned w \<and> callbacks_ok w \<and> pool_link w (pool w) \<and>
     pool_ok (pool w) \<and> workers_ok w (wm w) \<and> fds_accounted w"

lemma fds_accounted_cong:
  assumes "open_fds w' = open_fds w" "connections w' = connections w" "listen_fd (wm w') = listen_fd (wm w)"
  shows "fds_accounted w' \<longleftrightarrow> fds_accounted w"
  using assms by (simp add: fds_accounted_def listening_def)

lemma fds_accounted_added:
  assumes "fds_accounted w" and "f \<notin> set (open_fds w)" and "open_fds w' = f # open_fds w"
    and "connections w' = AList.update f a (connections w)" and "listen_fd (wm w') = listen_fd (wm w)"
  shows "fds_accounted w'"
  using assms by (auto simp: fds_accounted_def listening_def split: if_splits)

lemma fds_accounted_removed:
  assumes "fds_accounted w" and "map_of (connections w) f = Some a" and "open_fds w' = filter (\<lambda>g. g \<noteq> f) (open_fds w)"
    and "connections w' = AList.delete f (connections w)" and "listen_fd (wm w') = listen_fd (wm w)"
  shows "fds_accounted w'"
proof -
  have "dom (map_of (connections w')) = dom (map_of (connections w)) - {f}" using assms(4) by auto
  moreover have "f \<in> dom (map_of (connections w))" using assms(2) by auto
  ultimately show ?thesis
    using assms(1,3,5) unfolding fds_accounted_def listening_def by (simp split: if_splits) blast+
qed

lemma object_evolves:
  "evolves c c' \<Longrightarrow> pool_object c' = pool_object c"
  "evolves c c' \<Longrightarrow> worker_object a c' = worker_object a c"
  by (simp_all add: evolves_defs pool_object_def worker_object_def)

lemma callbacks_ok_update:
  "callbacks_ok w \<Longrightarrow> heap w a = Some c \<Longrightarrow> evolves c c' \<Longrightarrow> callbacks_ok (w\<lparr>heap := (heap w)(a \<mapsto> c')\<rparr>)"
  using object_evolves unfolding callbacks_ok_def by (simp add: fun_upd_apply)

lemma pool_link_update:
  "pool_link w p \<Longrightarrow> heap w a = Some c \<Longrightarrow> evolves c c' \<Longrightarrow> pool_link (w\<lparr>heap := (heap w)(a \<mapsto> c')\<rparr>) p"
  unfolding pool_link_def evolves_defs by auto

lemma pool_link_below: "loop_wf w \<Longrightarrow> heap w (next_addr w) = None"
  by (simp add: loop_wf_def heap_wf_def)

lemma loop_ok_cong:
  assumes "heap w' = heap w" "next_addr w' = next_addr w" "open_fds w' = open_fds w"
    "connections w' = connections w"
  shows "loop_wf w' \<longleftrightarrow> loop_wf w" "loop_owned w' \<longleftrightarrow> loop_owned w"
  using assms by (simp_all add: loop_wf_def heap_wf_def table_wf_def loop_owned_def)

lemma heap_ok_cong:
  assumes "heap w' = heap w" "next_addr w' = next_addr w"
  shows "callbacks_ok w' \<longleftrightarrow> callbacks_ok w" "pool_link w' p \<longleftrightarrow> pool_link w p"
    "workers_ok w' m \<longleftrightarrow> workers_ok w m"
  using assms
  by (simp_all add: callbacks_ok_def pool_link_def workers_ok_def entry_ok_def points_to_def doomed_def)

lemma proxy_ok_cong:
  assumes "heap w' = heap w" "next_addr w' = next_addr w" "open_fds w' = open_fds w"
    "connections w' = connections w" "pool w' = pool w" "wm w' = wm w"
  shows "proxy_ok w' \<longleftrightarrow> proxy_ok w"
  using loop_ok_cong [OF assms(1-4)] heap_ok_cong [OF assms(1,2)] fds_accounted_cong [OF assms(3,4)] assms(5,6)
  by (simp add: proxy_ok_def)

lemma with_connection_fields [simp]:
  "heap (with_connection f c w) = (heap w)(next_addr w \<mapsto> c)"
  "next_addr (with_connection f c w) = Suc (next_addr w)"
  "timeouts (with_connection f c w) = timeouts w" "running (with_connection f c w) = running w"
  "loop.more (with_connection f c w) = loop.more w"
  by (simp_all add: with_connection_def)

lemma with_connection_proxy [simp]:
  "pool (with_connection f c w) = pool w" "wm (with_connection f c (v :: 'z proxy_scheme)) = wm v"
  by (simp_all add: with_connection_def)

lemma workers_with_connection: "workers_ok w m \<Longrightarrow> workers_ok (with_connection f c w) m"
  by (erule workers_ok_mono) auto

lemma proxy_ok_pool_connection:
  assumes "proxy_ok w" and "0 \<le> f" and "f \<notin> set (open_fds w)" and "pool_object c" and "fd c = f"
    and "pool_ok p" and "pool_conn p = Some (next_addr w)" and "pool_fd p = f"
  shows "proxy_ok (with_connection f c (w\<lparr>pool := p\<rparr>))"
proof -
  let ?w = "w\<lparr>pool := p\<rparr>" and ?w' = "with_connection f c (w\<lparr>pool := p\<rparr>)"
  obtain i where i: "pimpl c = Some i" "ctype c = POOL" using assms(4) by (auto simp: pool_object_def)
  have ok: "loop_wf w" "loop_owned w" "callbacks_ok w" "workers_ok w (wm w)" "fds_accounted w"
    using assms(1) by (simp_all add: proxy_ok_def)
  have "fds_accounted ?w'"
    by (rule fds_accounted_added [OF ok(5) assms(3)]) (simp_all add: with_connection_def)
  moreover have w: "loop_wf ?w" "loop_owned ?w" "workers_ok ?w (wm w)"
    using ok loop_ok_cong [of ?w w] heap_ok_cong [of ?w w] by simp_all
  have fresh: "f \<notin> set (open_fds ?w)" using assms(3) by simp
  moreover have "callbacks_ok ?w'" using ok(3) assms(4) by (simp add: callbacks_ok_def)
  moreover have "pool_link ?w' p" using assms(5,7,8) i(2) by (simp add: pool_link_def)
  moreover have "loop_wf ?w'" by (rule with_connection_wf [OF w(1) assms(5,2) fresh i(1)])
  moreover have "loop_owned ?w'" by (rule with_connection_owned [OF w(1,2) assms(5) fresh])
  moreover have "workers_ok ?w' (wm w)" by (rule workers_with_connection [OF w(3)])
  ultimately show ?thesis using assms(6) unfolding proxy_ok_def by simp
qed

lemma proxy_ok_worker_connection:
  assumes "proxy_ok w" and "0 \<le> f" and "f \<notin> set (open_fds w)" and "worker_object (next_addr w) c"
    and "fd c = f"
  shows "proxy_ok (with_connection f c w\<lparr>wm := enrol f (next_addr w) (wm w)\<rparr>)"
proof -
  let ?w = "with_connection f c w" and ?m = "enrol f (next_addr w) (wm w)"
  obtain i where i: "pimpl c = Some i" "ctype c = WORKER" using assms(4) by (auto simp: worker_object_def)
  have ok: "loop_wf w" "loop_owned w" "callbacks_ok w" "workers_ok w (wm w)" "pool_link w (pool w)"
    "pool_ok (pool w)" "fds_accounted w"
    using assms(1) by (simp_all add: proxy_ok_def)
  have "fds_accounted (?w\<lparr>wm := ?m\<rparr>)"
    by (rule fds_accounted_added [OF ok(7) assms(3)]) (simp_all add: with_connection_def enrol_def)
  moreover have "callbacks_ok ?w" using ok(3) assms(4) by (simp add: callbacks_ok_def)
  moreover have "pool_link ?w (pool w)" using ok(5) by (auto simp: pool_link_def)
  moreover have "loop_wf ?w" by (rule with_connection_wf [OF ok(1) assms(5,2,3) i(1)])
  moreover have "loop_owned ?w" by (rule with_connection_owned [OF ok(1,2) assms(5,3)])
  moreover have "workers_ok ?w ?m" by (rule enrol_ok [OF ok(4,1) i(2) assms(5)])
  ultimately show ?thesis
    using ok(6) loop_ok_cong [of "?w\<lparr>wm := ?m\<rparr>" ?w] heap_ok_cong [of "?w\<lparr>wm := ?m\<rparr>" ?w]
    unfolding proxy_ok_def by simp
qed

lemma proxy_ok_erase:
  assumes "proxy_ok w" and "map_of (connections w) f = Some a"
  shows "proxy_ok (snd (erase_connection f a w))"
proof -
  have ok: "loop_wf w" "loop_owned w" "callbacks_ok w" "workers_ok w (wm w)" "pool_link w (pool w)"
    "pool_ok (pool w)" "fds_accounted w"
    using assms(1) by (simp_all add: proxy_ok_def)
  from erase_loop_wf [OF ok(1) assms(2)] obtain w' where
    e: "erase_connection f a w = (Inr (), w')" and w': "loop_wf w'"
    "heap w' = (heap w)(a := None)" "next_addr w' = next_addr w" "loop.more w' = loop.more w"
    "loop_owned w'" "connections w' = AList.delete f (connections w)"
    "open_fds w' = filter (\<lambda>g. g \<noteq> f) (open_fds w)"
    using ok(2) by blast
  have m: "pool w' = pool w" "wm w' = wm w" using w'(4) by (cases w'; cases w; simp)+
  have h: "heap w' b = Some d \<Longrightarrow> heap w b = Some d" for b d using w'(2) by (simp split: if_splits)
  have "fds_accounted w'"
    by (rule fds_accounted_removed [OF ok(7) assms(2) w'(7,6)]) (simp add: m)
  moreover have "workers_ok w' (wm w)"
    using ok(4) w'(3) h by (elim workers_ok_mono) auto
  moreover have "callbacks_ok w'" using ok(3) h unfolding callbacks_ok_def by blast
  moreover have "pool_link w' (pool w)" using ok(5) w'(3) by (auto simp: pool_link_def dest: h)
  ultimately show ?thesis using e w' m ok(6) unfolding proxy_ok_def by simp
qed

text \<open>
  The invariant with a condition \<open>K\<close> on the timers and the flag of the loop, which has to survive what
  the managers do to the timers.
\<close>

definition proxy_inv :: "(timeout list \<Rightarrow> bool \<Rightarrow> bool) \<Rightarrow> 'z proxy_scheme \<Rightarrow> bool" where
  "proxy_inv K w \<longleftrightarrow> proxy_ok w \<and> K (timeouts w) (running w)"

locale proxy_system = environment E for E :: env +
  fixes J :: "'j json_lib" and K :: "timeout list \<Rightarrow> bool \<Rightarrow> bool"
  assumes K_add: "K ts r \<Longrightarrow> K (ts @ [t]) r"
    and K_next: "K (past @ t # rest) r \<Longrightarrow> K (past @ rescheduled now t @ rest) r"
    and K_run: "K ts r \<Longrightarrow> K ts True"
begin

lemma inv_local: "local_invariant (proxy_inv K :: 'z proxy_scheme \<Rightarrow> bool)"
proof
  fix w :: "'z proxy_scheme" and n es a c c'
  assume w: "proxy_inv K w"
  then have ok: "loop_wf w" "loop_owned w" "callbacks_ok w" "workers_ok w (wm w)" "pool_link w (pool w)"
    "pool_ok (pool w)" "fds_accounted w" and K: "K (timeouts w) (running w)"
    by (simp_all add: proxy_inv_def proxy_ok_def)
  show "proxy_inv K (w\<lparr>ticks := n\<rparr>)" "proxy_inv K (w\<lparr>effects := es\<rparr>)"
    using w proxy_ok_cong [of "w\<lparr>ticks := n\<rparr>" w] proxy_ok_cong [of "w\<lparr>effects := es\<rparr>" w]
    by (simp_all add: proxy_inv_def)
  assume c: "heap w a = Some c" "evolves c c'"
  let ?w = "w\<lparr>heap := (heap w)(a \<mapsto> c')\<rparr>"
  have "\<exists>c. heap w b = Some c \<and> evolves c d" if "heap ?w b = Some d" for b d
    using c that by (cases "b = a") auto
  then have "workers_ok ?w (wm w)"
    using ok(4) by (elim workers_ok_mono) auto
  moreover have "loop_wf ?w" by (rule wf_inv.W_update [OF ok(1) c])
  moreover have "loop_owned ?w" by (rule owned_inv.W_update [OF ok(2) c])
  moreover have "callbacks_ok ?w" by (rule callbacks_ok_update [OF ok(3) c])
  moreover have "pool_link ?w (pool w)" by (rule pool_link_update [OF ok(5) c])
  moreover have "fds_accounted ?w" using ok(7) fds_accounted_cong [of ?w w] by simp
  ultimately show "proxy_inv K ?w" using ok(6) K unfolding proxy_inv_def proxy_ok_def by simp
qed

lemma inv_wf: "proxy_inv K w \<Longrightarrow> loop_wf w"
  by (simp add: proxy_inv_def proxy_ok_def)

lemma inv_workers: "proxy_inv K w \<Longrightarrow> workers_ok w (wm w)"
  by (simp add: proxy_inv_def proxy_ok_def)

lemma inv_pool: "proxy_inv K w \<Longrightarrow> pool_ok (pool w)"
  by (simp add: proxy_inv_def proxy_ok_def)

lemma inv_set_wm: "proxy_inv K w \<Longrightarrow> workers_ok w m \<Longrightarrow> listen_fd m = listen_fd (wm w) \<Longrightarrow>
    proxy_inv K (w\<lparr>wm := m\<rparr>)"
  using loop_ok_cong [of "w\<lparr>wm := m\<rparr>" w] heap_ok_cong [of "w\<lparr>wm := m\<rparr>" w]
    fds_accounted_cong [of "w\<lparr>wm := m\<rparr>" w]
  by (simp add: proxy_inv_def proxy_ok_def)

lemma inv_accept: "proxy_inv K w \<Longrightarrow> 0 \<le> f \<Longrightarrow> f \<notin> set (open_fds w) \<Longrightarrow>
    worker_object (next_addr w) c \<Longrightarrow> fd c = f \<Longrightarrow>
    proxy_inv K (with_connection f c w\<lparr>wm := enrol f (next_addr w) (wm w)\<rparr>)"
  using proxy_ok_worker_connection [of w f c] by (simp add: proxy_inv_def)

lemma inv_set_pool: "proxy_inv K w \<Longrightarrow> pool_ok p \<Longrightarrow> pool_conn p = pool_conn (pool w) \<Longrightarrow>
    pool_fd p = pool_fd (pool w) \<Longrightarrow> proxy_inv K (w\<lparr>pool := p\<rparr>)"
  using loop_ok_cong [of "w\<lparr>pool := p\<rparr>" w] heap_ok_cong [of "w\<lparr>pool := p\<rparr>" w]
    fds_accounted_cong [of "w\<lparr>pool := p\<rparr>" w]
  by (simp add: proxy_inv_def proxy_ok_def pool_link_def)

lemma inv_timeouts:
  assumes "proxy_inv K w" and "K ts (running w)"
  shows "proxy_inv K (w\<lparr>timeouts := ts\<rparr>)"
  using assms proxy_ok_cong [of "w\<lparr>timeouts := ts\<rparr>" w] by (simp add: proxy_inv_def)

lemma inv_timer: "proxy_inv K w \<Longrightarrow> proxy_inv K (w\<lparr>timeouts := timeouts w @ [t]\<rparr>)"
  using inv_timeouts [of w "timeouts w @ [t]"] K_add [of "timeouts w" "running w" t]
  by (simp add: proxy_inv_def)

lemma inv_rescheduled: "proxy_inv K w \<Longrightarrow> timeouts w = past @ t # rest \<Longrightarrow>
    proxy_inv K (w\<lparr>timeouts := past @ rescheduled now t @ rest\<rparr>)"
  using K_next [of past t rest "running w" now] by (intro inv_timeouts) (auto simp: proxy_inv_def)

lemma inv_running: "proxy_inv K w \<Longrightarrow> proxy_inv K (w\<lparr>running := True\<rparr>)"
  using proxy_ok_cong [of "w\<lparr>running := True\<rparr>" w] K_run [of "timeouts w" "running w"]
  by (simp add: proxy_inv_def)

lemma inv_erase: "proxy_inv K w \<Longrightarrow> map_of (connections w) f = Some a \<Longrightarrow>
    proxy_inv K (snd (erase_connection f a w))"
proof -
  assume w: "proxy_inv K w" and f: "map_of (connections w) f = Some a"
  then have ok: "proxy_ok w" "loop_wf w" by (simp_all add: proxy_inv_def inv_wf)
  from erase_loop_wf [OF ok(2) f] have "timeouts (snd (erase_connection f a w)) = timeouts w"
    "running (snd (erase_connection f a w)) = running w" by auto
  with proxy_ok_erase [OF ok(1) f] w show ?thesis by (simp add: proxy_inv_def)
qed

lemma inv_alloc:
  assumes "proxy_inv K w" and "next_addr w \<le> n"
  shows "proxy_inv K (w\<lparr>next_addr := n\<rparr>)"
proof -
  have ok: "loop_wf w" "loop_owned w" "callbacks_ok w" "workers_ok w (wm w)" "pool_link w (pool w)"
    "pool_ok (pool w)" "fds_accounted w" and K: "K (timeouts w) (running w)"
    using assms(1) by (simp_all add: proxy_inv_def proxy_ok_def)
  let ?w = "w\<lparr>next_addr := n\<rparr>"
  have "loop_wf ?w" using ok(1) assms(2) by (auto simp: loop_wf_def heap_wf_def table_wf_def)
  moreover have "loop_owned ?w" using ok(2) by (simp add: loop_owned_def)
  moreover have "callbacks_ok ?w" using ok(3) by (simp add: callbacks_ok_def)
  moreover have "pool_link ?w (pool w)" using ok(5) assms(2) by (auto simp: pool_link_def)
  moreover have "workers_ok ?w (wm w)" using ok(4) assms(2) by (elim workers_ok_mono) auto
  moreover have "fds_accounted ?w" using ok(7) fds_accounted_cong [of ?w w] by simp
  ultimately show ?thesis using ok(6) K unfolding proxy_inv_def proxy_ok_def by simp
qed

lemma inv_connect: "proxy_inv K w \<Longrightarrow> 0 \<le> f \<Longrightarrow> f \<notin> set (open_fds w) \<Longrightarrow> pool_object c \<Longrightarrow>
    fd c = f \<Longrightarrow> pool_ok p \<Longrightarrow> pool_conn p = Some (next_addr w) \<Longrightarrow> pool_fd p = f \<Longrightarrow>
    proxy_inv K (with_connection f c (w\<lparr>pool := p\<rparr>))"
  using proxy_ok_pool_connection [of w f c p] by (simp add: proxy_inv_def)

end

text \<open>The worker manager's half that does not call back: accepting and sending jobs.\<close>

sublocale proxy_system \<subseteq> sending: worker_owner "proxy_inv K" E None
  by (intro worker_owner.intro worker_owner_axioms.intro inv_local)
    (auto simp: environment_axioms inv_wf inv_workers inv_set_wm inv_accept)

text \<open>The pool manager with the callbacks of \<open>main\<close>.\<close>

lemma print_line_frame:
  "local_invariant I \<Longrightarrow> invar (\<lambda>w. I w \<and> holds a k s w) (print_line x)"
  unfolding print_line_def by (rule local_invariant.both_prims)

lemma print_line_safe: "only_fails S (print_line x)"
  unfolding print_line_def by (rule safe)

context proxy_system begin

lemma on_job_invar: "invar (\<lambda>w. proxy_inv K w \<and> holds a k s w) (on_job E j)"
  unfolding on_job_def by (intro frame print_line_frame inv_local sending.send_job_invar)

lemma on_share_response_invar:
  "invar (\<lambda>w. proxy_inv K w \<and> holds a k s w) (on_share_response x b e)"
  unfolding on_share_response_def by (intro print_line_frame inv_local)

lemma on_pool_change_invar: "invar (\<lambda>w. proxy_inv K w \<and> holds a k s w) (on_pool_change x b)"
  unfolding on_pool_change_def by (intro print_line_frame inv_local)

end

sublocale proxy_system \<subseteq> upstream: pool_owner "proxy_inv K" E "wired E"
  by (intro pool_owner.intro pool_owner_axioms.intro inv_local)
    (auto simp: environment_axioms inv_wf inv_pool inv_set_pool inv_alloc inv_timer inv_connect
      wired_def intro: on_job_invar on_share_response_invar on_pool_change_invar)

context proxy_system begin

lemma on_share_invar: "invar (\<lambda>w. proxy_inv K w \<and> holds a k s w) (on_share E x j n r)"
  unfolding on_share_def by (intro frame print_line_frame inv_local upstream.submit_share_invar)

end

text \<open>The worker manager with the callback of \<open>main\<close>.\<close>

sublocale proxy_system \<subseteq> downstream: worker_owner "proxy_inv K" E "Some (on_share E)"
  by (intro worker_owner.intro worker_owner_axioms.intro inv_local)
    (auto simp: environment_axioms inv_wf inv_workers inv_set_wm inv_accept intro: on_share_invar)

context proxy_system begin

lemma on_message_invar: "invar (\<lambda>w. proxy_inv K w \<and> holds a k s w) (on_message J E cb line)"
  by (cases cb) (auto intro: upstream.on_pool_message_invar downstream.on_worker_message_invar)

lemma on_state_invar: "invar (\<lambda>w. proxy_inv K w \<and> holds a k s w) (on_state E cb st)"
  by (cases cb) (auto intro: upstream.on_pool_state_invar downstream.on_worker_state_invar)

lemma fire_invar: "invar (proxy_inv K) (fire_timer E x)"
  by (cases x)
    (auto intro!: frame downstream.accept_invar upstream.try_connect_pool_invar simp del: mbind_get_pool)

text \<open>The timers' callbacks leave the vector of timers alone.\<close>

lemma connect_to_pool_timeouts:
  "keeps timeouts (connect_to_pool E no_callback host port name :: ('z loop_scheme, nat option) M)"
  unfolding connect_to_pool_def new_connection_def setup_tls_def create_ssl_context_def set_state_def
    no_callback_def delete_connection_def
  by (auto intro!: frame split: prod.splits)

lemma add_connection_timeouts: "keeps timeouts (add_connection a)"
  unfolding add_connection_def delete_connection_def by (intro frame) simp

lemma try_connect_timeouts: "keeps timeouts (try_connect_from E i ps)"
proof (induction ps arbitrary: i)
  case Nil
  show ?case unfolding try_connect_from.simps by (rule frame)
next
  case (Cons p ps)
  show ?case
    unfolding try_connect_from.simps set_state_callback_def set_message_callback_def
    by (intro frame Cons.IH add_connection_timeouts connect_to_pool_timeouts)
qed

lemma send_current_timeouts: "keeps timeouts (send_current_job E)"
  unfolding send_current_job_def send_job_def send_job_to_def by (intro frame)

lemma fire_timeouts: "keeps timeouts (fire_timer E x)"
proof (cases x)
  case Accept_timer
  show ?thesis
    unfolding Accept_timer fire_timer.simps accept_worker_def adopt_worker_def new_connection_def
      set_state_def set_state_callback_def set_message_callback_def get_connection_def
      take_extra_nonce2_def no_callback_def
    by (auto intro!: frame send_current_timeouts add_connection_timeouts split: prod.splits)
next
  case Reconnect_timer
  show ?thesis
    unfolding Reconnect_timer fire_timer.simps try_connect_pool_def
    by (intro frame try_connect_timeouts)
qed

end

sublocale proxy_system \<subseteq> system: loop_handlers "proxy_inv K" "on_message J E" "on_state E" E "fire_timer E"
proof (intro loop_handlers.intro event_handlers.intro line_receiver.intro inv_local)
  show "line_receiver_axioms (proxy_inv K) (on_message J E)"
    by unfold_locales (rule on_message_invar)
  show "event_handlers_axioms (proxy_inv K) (on_state E)"
    by unfold_locales (rule on_state_invar)
  show "loop_handlers_axioms (proxy_inv K) E (fire_timer E)"
    by unfold_locales
      (auto simp: environment_axioms inv_wf inv_erase inv_rescheduled inv_running fire_timeouts
        intro: fire_invar)
qed

section \<open>The system\<close>

context proxy_system begin

lemmas connect_pool_invar = upstream.try_connect_pool_invar
lemmas system_round_invar = system.round_invar
lemmas system_run_invar = system.run_invar
lemmas system_no_return = system.rounds_no_return
lemmas system_receive = system.receive_delivers
lemmas system_buffer = system.deliver_buffer
lemmas system_loop = system.loop_handlers_axioms
lemmas system_cleanup = system.cleanup_invar

end

lemma proxy_system_any: "environment E \<Longrightarrow> proxy_system E (\<lambda>_ _. True)"
  by (simp add: proxy_system_def proxy_system_axioms_def)

text \<open>The condition that keeps the loop alive.\<close>

definition stays_alive :: "timeout list \<Rightarrow> bool \<Rightarrow> bool" where
  "stays_alive ts r \<longleftrightarrow> r \<and> (\<exists>t \<in> set ts. recurring t)"

lemma stays_alive_system: "environment E \<Longrightarrow> proxy_system E stays_alive"
  unfolding proxy_system_def proxy_system_axioms_def
  by (auto simp: stays_alive_def rescheduled_def)

interpretation calm_system: proxy_system calm_env ref_json "\<lambda>_ _. True"
  by (rule proxy_system_any) (rule calm.environment_axioms)

interpretation calm_alive: proxy_system calm_env ref_json stays_alive
  by (rule stays_alive_system) (rule calm.environment_axioms)

section \<open>Failures of the system\<close>

lemma on_job_safe: "only_fails {Undefined} (on_job E j)"
  unfolding on_job_def by (intro safe print_line_safe send_job_safe)

lemma wired_safe: "callbacks_safe (wired E)"
  unfolding callbacks_safe_def wired_def on_share_response_def on_pool_change_def
  by (auto intro: on_job_safe print_line_safe)

lemma on_share_safe: "only_fails {Undefined} (on_share E x j n r)"
  unfolding on_share_def by (intro safe print_line_safe submit_share_safe)

lemma on_message_safe: "json_library J \<Longrightarrow> only_fails {Undefined} (on_message J E cb line)"
  by (cases cb)
    (auto intro!: json_library.on_pool_message_safe json_library.on_worker_message_safe wired_safe
      on_share_safe)

lemma on_state_safe: "only_fails {Undefined} (on_state E cb st)"
  by (cases cb) (auto intro: on_pool_state_safe wired_safe on_worker_state_safe)

lemma fire_timer_safe: "only_fails {Undefined} (fire_timer E x)"
  by (cases x) (auto intro!: safe accept_worker_safe try_connect_pool_safe simp del: mbind_get_pool)

abbreviation loop_failures :: "failure set" where
  "loop_failures \<equiv> {Undefined, Out_of_fuel}"

lemma safe_system: 
  assumes "json_library J"
  shows "safe_handlers loop_failures (on_message J E) (on_state E) (fire_timer E)"
  by unfold_locales
    (auto intro: only_fails_mono [OF on_message_safe] only_fails_mono [OF on_state_safe]
      only_fails_mono [OF fire_timer_safe] assms)

interpretation ref_safe: safe_handlers loop_failures "on_message ref_json E" "on_state E" E "fire_timer E"
  for E
  by (rule safe_system) (rule ref_json_library)

section \<open>Start-up\<close>

lemma initial_ok: "proxy_ok (initial_world g cfg)"
  by (simp add: proxy_ok_def initial_world_def loop_wf_def heap_wf_def table_wf_def loop_owned_def
      callbacks_ok_def pool_link_def new_pool_manager_ok new_worker_manager_ok fds_accounted_def listening_def)
    (simp add: new_pool_manager_def new_worker_manager_def)

lemma proxy_ok_fds:
  assumes "proxy_ok w" and "heap w' = heap w" "next_addr w' = next_addr w" 
    "set (open_fds w) \<subseteq> set (open_fds w')"
    "connections w' = connections w" "pool w' = pool w" "workers_ok w (wm w')" "fds_accounted w'"
  shows "proxy_ok w'"
proof -
  have "loop_wf w'" "loop_owned w'"
    using assms by (auto simp: proxy_ok_def loop_wf_def heap_wf_def table_wf_def loop_owned_def)
  then show ?thesis
    using assms heap_ok_cong [OF assms(2,3)] by (simp add: proxy_ok_def)
qed

definition clock_ms :: "env \<Rightarrow> nat \<Rightarrow> 64 word" where
  "clock_ms E n = fst (sys_clock E n) * 1000 + snd (sys_clock E n) div 1000000"

lemma set_timeout_apply:
  "set_timeout E i cb r w = (Inr (), w\<lparr>ticks := Suc (ticks w), timeouts := timeouts w @
     [\<lparr>next_fire_ms = clock_ms E (ticks w) + i, interval_ms = i, callback = cb, recurring = r\<rparr>]\<rparr>)"
  by (cases "sys_clock E (ticks w)") (simp add: set_timeout_def now_ms_def clock_ms_def)

text \<open>
  \<open>WorkerManager::start\<close> either listens, with the recurring accept timer installed, or leaves
  \<open>listen_fd\<close> negative.
\<close>

lemma worker_start_result:
  assumes "environment E" and "proxy_ok w" and "listen_fd (wm w) < 0"
  obtains w' where "worker_start E w = (Inr (), w')" "proxy_ok w'" "workers (wm w') = workers (wm w)"
    "0 \<le> listen_fd (wm w') \<Longrightarrow>
       \<exists>t \<in> set (timeouts w'). recurring t \<and> callback t = Accept_timer \<and> interval_ms t = 100"
proof -
  let ?f = "sys_socket E (ticks w) (open_fds w)"
  have fresh: "0 \<le> ?f \<Longrightarrow> filter (\<lambda>g. g \<noteq> ?f) (open_fds w) = open_fds w"
    using environment.socket_fresh [OF assms(1), of "ticks w" "open_fds w"] by (auto intro!: filter_True)
  have wm: "workers_ok w (wm w)" and acc: "fds_accounted w" using assms(2) by (simp_all add: proxy_ok_def)
  have quiet: "fds_accounted v" if "open_fds v = open_fds w" "connections v = connections w" "listen_fd (wm v) < 0" for v
    using that acc assms(3) by (simp add: fds_accounted_def listening_def)
  have listens: "fds_accounted v" if "open_fds v = ?f # open_fds w" "connections v = connections w" "listen_fd (wm v) = ?f"
      "0 \<le> ?f" for v
    using that acc assms(3) environment.socket_fresh [OF assms(1), of "ticks w" "open_fds w"]
    by (auto simp: fds_accounted_def listening_def)
  let ?ok = "\<lambda>w'. worker_start E w = (Inr (), w') \<and> proxy_ok w' \<and> workers (wm w') = workers (wm w) \<and>
    (0 \<le> listen_fd (wm w') \<longrightarrow>
       (\<exists>t \<in> set (timeouts w'). recurring t \<and> callback t = Accept_timer \<and> interval_ms t = 100))"
  have "\<exists>w'. ?ok w'"
  proof (cases "?f < 0")
    case True
    let ?w = "w\<lparr>ticks := Suc (ticks w), wm := (wm w)\<lparr>listen_fd := ?f\<rparr>\<rparr>"
    have "proxy_ok ?w"
      using True by (intro proxy_ok_fds [OF assms(2)]) (auto intro: workers_ok_same [OF wm] quiet)
    with True show ?thesis by (intro exI [of _ ?w]) (simp add: worker_start_def mthen_def)
  next
    case False
    let ?w1 = "w\<lparr>wm := (wm w)\<lparr>listen_fd := ?f\<rparr>, open_fds := ?f # open_fds w\<rparr>"
    have step: "worker_start E w =
      (if sys_bind E (Suc (ticks w)) ?f (worker_port (wm w)) < 0
       then mthen (close_fd ?f) (set_wm (\<lambda>m. m\<lparr>listen_fd := -1\<rparr>)) (?w1\<lparr>ticks := Suc (Suc (ticks w))\<rparr>)
       else if sys_listen E (Suc (Suc (ticks w))) ?f 5 < 0
       then mthen (close_fd ?f) (set_wm (\<lambda>m. m\<lparr>listen_fd := -1\<rparr>)) (?w1\<lparr>ticks := Suc (Suc (Suc (ticks w)))\<rparr>)
       else set_timeout E 100 Accept_timer True (?w1\<lparr>ticks := Suc (Suc (Suc (Suc (ticks w))))\<rparr>))"
      using False by (simp add: worker_start_def register_fd_def mthen_def mbind_get_wm)
    have failed: "\<exists>w'. mthen (close_fd ?f) (set_wm (\<lambda>m. m\<lparr>listen_fd := -1\<rparr>)) (?w1\<lparr>ticks := n\<rparr>) = (Inr (), w') \<and>
        proxy_ok w' \<and> workers (wm w') = workers (wm w) \<and> listen_fd (wm w') = -1" for n
      using fresh False
      by (auto simp: close_fd_def mthen_def intro!: proxy_ok_fds [OF assms(2)] workers_ok_same [OF wm] quiet)
    have ok: "proxy_ok (?w1\<lparr>ticks := n, timeouts := ts\<rparr>)" for n ts
      using False by (intro proxy_ok_fds [OF assms(2)]) (auto intro: workers_ok_same [OF wm] listens)
    show ?thesis
    proof (cases "sys_bind E (Suc (ticks w)) ?f (worker_port (wm w)) < 0 \<or>
        sys_listen E (Suc (Suc (ticks w))) ?f 5 < 0")
      case True
      with failed [of "Suc (Suc (ticks w))"] failed [of "Suc (Suc (Suc (ticks w)))"] show ?thesis
        by (auto simp: step split: if_splits)
    next
      case False
      with ok show ?thesis by (auto simp: step set_timeout_apply)
    qed
  qed
  with that show thesis by blast
qed

lemma pool_start_ok:
  assumes "environment E"
  shows "invar proxy_ok (pool_start E)"
proof -
  have "proxy_system E (\<lambda>_ _. True)" using assms by (rule proxy_system_any)
  from proxy_system.connect_pool_invar(1) [OF this, of 0]
  have "invar proxy_ok (try_connect_pool E 0)" by (simp add: proxy_inv_def invar_def)
  then show ?thesis unfolding pool_start_def by (intro frame)
qed

text \<open>\<open>PoolManager::start\<close> always returns, and leaves the worker manager alone.\<close>

lemma pool_start_returns:
  assumes "environment E" and "loop_wf w" and "pool_start E w = (r, w')"
  shows "r = Inr () \<and> wm w' = wm w"
proof (cases "pool_configs (pool w) = []")
  case True
  with assms(3) show ?thesis by (simp add: pool_start_def mbind_get_pool)
next
  case False
  with assms(3) have r: "try_connect_from E 0 (pool_configs (pool w)) w = (r, w')"
    by (simp add: pool_start_def try_connect_pool_def mbind_get_pool)
  show ?thesis
    by (cases rule: try_connect_result [OF assms(1,2), of 0 "pool_configs (pool w)"]) (use r in auto)
qed

lemma start_ok:
  assumes "environment E" and "proxy_start E cfg (initial_world g cfg) = (Inr ok, w)"
  shows "proxy_ok w \<and> (ok \<longrightarrow> 0 \<le> listen_fd (wm w) \<longrightarrow>
    (\<exists>t \<in> set (timeouts w). recurring t \<and> callback t = Accept_timer \<and> interval_ms t = 100))"
proof -
  have emit_ok: "proxy_ok (v\<lparr>effects := es\<rparr>) = proxy_ok v" for v :: proxy and es
    by (rule proxy_ok_cong) simp_all
  let ?w0 = "(initial_world g cfg)\<lparr>effects := effects (initial_world g cfg) @
      [Printed (''[gpu-proxy] Starting GPU Proxy v2.0.0'' @ [newline])] @
      [Printed (''[gpu-proxy] Loaded '' @ show_nat (length (pools cfg)) @ '' pools'' @ [newline])]\<rparr>"
  have w0: "proxy_ok ?w0" using initial_ok emit_ok by blast
  show ?thesis
  proof (cases "pools cfg = []")
    case True
    with assms(2) w0 show ?thesis
      by (auto simp: proxy_start_def print_line_def)
  next
    case False
    obtain r w1 where 1: "pool_start E ?w0 = (r, w1)" by (cases "pool_start E ?w0")
    have w1: "proxy_ok w1" using invarD [OF pool_start_ok [OF assms(1)] w0 1] .
    have "loop_wf ?w0" using w0 by (simp add: proxy_ok_def)
    then have w1': "listen_fd (wm w1) < 0"
      using pool_start_returns [OF assms(1) _ 1] by (simp add: initial_world_def new_worker_manager_def)
    obtain w2 where 2: "worker_start E w1 = (Inr (), w2)" "proxy_ok w2"
      "0 \<le> listen_fd (wm w2) \<Longrightarrow>
       \<exists>t \<in> set (timeouts w2). recurring t \<and> callback t = Accept_timer \<and> interval_ms t = 100"
      using worker_start_result [OF assms(1) w1 w1'] by metis
    have "proxy_start E cfg (initial_world g cfg) = mbind (pool_start E) (\<lambda>_. mthen (worker_start E)
        (mthen (print_line (''[gpu-proxy] Ready, listening on port '' @ show_nat (unat (listen_port cfg))))
          (mret True))) ?w0"
      using False by (simp add: proxy_start_def print_line_def mthen_def)
    with assms(2) 1 2(1) have "w = w2\<lparr>effects := effects w2 @ [Printed
        (''[gpu-proxy] Ready, listening on port '' @ show_nat (unat (listen_port cfg)) @ [newline])]\<rparr>"
      by (cases r) (auto simp: print_line_def)
    with 2 emit_ok show ?thesis by simp
  qed
qed

section \<open>Reachable states\<close>

text \<open>
  The states between the rounds of the loop: after a successful start, and after every round that
  came to its end.
\<close>

inductive reachable :: "'j json_lib \<Rightarrow> env \<Rightarrow> proxy_config \<Rightarrow> garbage \<Rightarrow> proxy \<Rightarrow> bool"
  for J E cfg g where
  started: "proxy_start E cfg (initial_world g cfg) = (Inr True, w) \<Longrightarrow> reachable J E cfg g w"
| round: "reachable J E cfg g w \<Longrightarrow>
    run_round E (on_message J E) (on_state E) (fire_timer E) w = (Inr again, w') \<Longrightarrow>
    reachable J E cfg g w'"

inductive_cases reachableE: "reachable J E cfg g w"

lemma reachable_ok:
  assumes "environment E" and "reachable J E cfg g w"
  shows "proxy_ok w"
  using assms(2)
proof induction
  case (started w)
  with start_ok [OF assms(1)] show ?case by blast
next
  case (round w again w')
  have "proxy_inv (\<lambda>_ _. True) w" using round.IH by (simp add: proxy_inv_def)
  from invarD [OF proxy_system.system_round_invar [OF proxy_system_any [OF assms(1)]] this round.hyps(2)]
  show ?case by (simp add: proxy_inv_def)
qed

lemma run_never_returns:
  assumes "environment E" and "proxy_ok w" and "\<exists>t \<in> set (timeouts w). recurring t"
  shows "fst (proxy_run fuel J E w) \<noteq> Inr ()"
proof -
  let ?w = "w\<lparr>running := True\<rparr>"
  have "proxy_ok ?w" using assms(2) proxy_ok_cong [of ?w w] by simp
  then have w: "proxy_inv stays_alive ?w" using assms(3) by (simp add: proxy_inv_def stays_alive_def)
  have "alive v" if "proxy_inv stays_alive v" for v
    using that by (auto simp: proxy_inv_def stays_alive_def alive_def)
  from proxy_system.system_no_return [OF stays_alive_system [OF assms(1)] this w]
  show ?thesis by (simp add: proxy_run_def run_def)
qed

section \<open>The end of the process\<close>

text \<open>The destructors close the listening socket and every connection, and leave the standard descriptors.\<close>

lemma delete_proxy_apply:
  assumes "environment E" and "proxy_ok w"
  shows "\<exists>w'. delete_proxy E w = (Inr (), w') \<and> connections w' = [] \<and> heap w' = Map.empty \<and>
    timeouts w' = [] \<and> set (open_fds w') = {0, 1, 2}"
proof -
  have ok: "loop_wf w" "loop_owned w" "fds_accounted w" using assms(2) by (simp_all add: proxy_ok_def)
  let ?l = "listen_fd (wm w)"
  let ?T = "dom (map_of (connections w))"
  obtain v where v: "delete_worker_manager w = (Inr (), v)" "heap v = heap w" "next_addr v = next_addr w"
    "connections v = connections w" "set (open_fds v) = set (open_fds w) - listening (wm w)"
    by (cases "0 \<le> ?l")
      (auto simp: delete_worker_manager_def mbind_get_wm close_fd_def mthen_def listening_def)
  have k: "fd c \<in> set (open_fds v)" if "heap w a = Some c" for a c
  proof -
    have "fd c \<in> ?T" using ok(2) that by (auto simp: loop_owned_def)
    moreover have "fd c \<in> set (open_fds w)" using loop_wf_object [OF ok(1) that] by blast
    ultimately show ?thesis using ok(3) v(5) by (auto simp: fds_accounted_def)
  qed
  then have "loop_wf v" "loop_owned v"
    using ok(1,2) v(2-4) by (auto simp: loop_wf_def heap_wf_def table_wf_def loop_owned_def)
  from delete_event_loop_apply [OF assms(1) this] obtain w' where w': "delete_event_loop E v = (Inr (), w')"
    "connections w' = []" "heap w' = Map.empty" "timeouts w' = []"
    "open_fds w' = filter (\<lambda>g. g \<notin> dom (map_of (connections v))) (open_fds v)"
    by blast
  have "set (open_fds w') = set (open_fds w) - listening (wm w) - ?T" using w'(5) v(4,5) by auto
  also have "\<dots> = {0, 1, 2}"
    using ok(3) unfolding fds_accounted_def by blast
  finally show ?thesis using v(1) w' by (intro exI [of _ w']) (simp add: delete_proxy_def)
qed

lemma delete_proxy_safe: "only_fails {Undefined} (delete_proxy E)"
  unfolding delete_proxy_def delete_worker_manager_def delete_event_loop_def stop_def connection_keys_def
    destroy_connection_def connection_at_def erase_connection_def delete_connection_def
  by (intro safe) auto

text \<open>What \<open>main\<close> has when it leaves the scope of the \<open>GPUProxy\<close> object.\<close>

lemma run_ok:
  assumes "environment E" and "proxy_ok w" and "proxy_run fuel J E w = (r, w')"
  shows "proxy_ok w'"
proof -
  have "proxy_inv (\<lambda>_ _. True) w" using assms(2) by (simp add: proxy_inv_def)
  from invarD [OF proxy_system.system_run_invar [OF proxy_system_any [OF assms(1)]] this] assms(3)
  show ?thesis by (simp add: proxy_inv_def proxy_run_def)
qed

lemma proxy_scope_safe:
  assumes "json_library J"
  shows "only_fails loop_failures (proxy_scope fuel J E signalled cfg)"
proof -
  have "only_fails loop_failures (proxy_start E cfg)"
    unfolding proxy_start_def pool_start_def worker_start_def
    by (intro safe print_line_safe only_fails_mono [OF try_connect_pool_safe] set_timeout_safe) auto
  moreover have "only_fails loop_failures (proxy_run fuel J E)"
    unfolding proxy_run_def by (rule safe_handlers.run_safe [OF safe_system [OF assms]])
  ultimately show ?thesis unfolding proxy_scope_def proxy_stop_def stop_def by (intro safe print_line_safe)
qed

lemma proxy_scope_ok:
  assumes "environment E" and "proxy_scope fuel J E signalled cfg (initial_world g cfg) = (Inr k, w)"
  shows "proxy_ok w"
proof -
  have plain: "proxy_ok (v\<lparr>running := b, effects := es\<rparr>)" if "proxy_ok v" for v :: proxy and b es
    using that proxy_ok_cong [of "v\<lparr>running := b, effects := es\<rparr>" v] by simp
  obtain ok u where u: "proxy_start E cfg (initial_world g cfg) = (Inr ok, u)"
    using assms(2) unfolding proxy_scope_def
    by (cases "proxy_start E cfg (initial_world g cfg)"; cases "fst (proxy_start E cfg (initial_world g cfg))") auto
  have "proxy_ok u" using start_ok [OF assms(1) u] by blast
  then show ?thesis
    using assms(2) u run_ok [OF assms(1)]
    by (cases ok; cases signalled)
      (auto simp: proxy_scope_def proxy_stop_def stop_def print_line_def mbind_def mthen_def
        split: prod.splits sum.splits intro!: plain)
qed

end
