(* ===== verification/System.thy ===== *)
theory System
  imports Proxy
begin

text \<open>
  The proxy as a running system: a round of its loop comes to its end, what becomes of the bytes that
  arrive, of a connection that hangs up, and of the loop itself once it serves; what a step of the
  handshake with the pool leads to, and what losing the pool again and again does.
\<close>

section \<open>A round of the system\<close>

lemma quiet_system:
  assumes "json_library J"
  shows "quiet_handlers {Undefined} (on_message J E) (on_state E) (fire_timer E)"
  by unfold_locales (auto intro: on_message_safe on_state_safe fire_timer_safe assms)

lemma prompt_system:
  assumes "environment E" and "json_library J"
  shows "prompt_handlers (proxy_inv (\<lambda>_ _. True)) (on_message J E) (on_state E) E (fire_timer E) {Undefined}"
proof (rule prompt_handlers.intro)
  show "loop_handlers (proxy_inv (\<lambda>_ _. True)) (on_message J E) (on_state E) E (fire_timer E)"
    by (rule proxy_system.system_loop [OF proxy_system_any [OF assms(1)]])
  show "quiet_handlers {Undefined} (on_message J E) (on_state E) (fire_timer E)"
    by (rule quiet_system [OF assms(2)])
  show "prompt_handlers_axioms (proxy_inv (\<lambda>_ _. True))"
    by unfold_locales
      (auto simp: proxy_inv_def proxy_ok_def callbacks_ok_def pool_object_def worker_object_def)
qed

interpretation calm_prompt: prompt_handlers "proxy_inv (\<lambda>_ _. True)" "on_message ref_json calm_env"
    "on_state calm_env" calm_env "fire_timer calm_env" "{Undefined}"
  by (rule prompt_system) (rule calm.environment_axioms ref_json_library)+

lemma round_fails_undefined:
  assumes "environment E" and "json_library J" and "proxy_ok w"
    and "run_round E (on_message J E) (on_state E) (fire_timer E) w = (Inl e, w')"
  shows "e = Undefined"
  using safe_underD [OF prompt_handlers.round_prompt [OF prompt_system [OF assms(1,2)]] _ assms(4)]
    assms(3) by (simp add: proxy_inv_def)

section \<open>Lines\<close>

lemma proxy_callback:
  assumes "proxy_ok w" and "heap w a = Some c"
  obtains cb where "message_cb c = Some cb" "a < next_addr w"
    "cb = Pool_closure \<and> ctype c = POOL \<or> cb = Worker_closure a \<and> ctype c = WORKER"
proof -
  have "pool_object c \<or> worker_object a c" "a < next_addr w"
    using assms loop_wf_object [of w a c] by (auto simp: proxy_ok_def callbacks_ok_def)
  with that show thesis by (auto simp: pool_object_def worker_object_def)
qed

text \<open>What \<open>receive_bytes\<close> does in the system, and what it leaves in the buffer.\<close>

lemma system_receives:
  assumes "environment E" and "proxy_ok w" and "heap w a = Some c" and "message_cb c = Some cb"
  shows "receive_bytes (on_message J E) a bytes w =
      mthen (deliver (on_message J E) a cb (rounds (read_buffer c @ bytes))) (mret (int (length bytes)))
        (w\<lparr>heap := (heap w)(a \<mapsto> c\<lparr>read_buffer := read_buffer c @ bytes\<rparr>)\<rparr>)"
    and "receive_bytes (on_message J E) a bytes w = (Inr n, w') \<Longrightarrow>
      \<exists>c'. heap w' a = Some c' \<and> read_buffer c' = snd (split_lines (read_buffer c @ bytes)) \<and>
        message_cb c' = Some cb \<and> proxy_ok w'"
proof -
  have I: "proxy_inv (\<lambda>_ _. True) w" using assms(2) by (simp add: proxy_inv_def)
  have a: "a < next_addr w" using proxy_callback [OF assms(2,3)] by metis
  show eq: "receive_bytes (on_message J E) a bytes w =
      mthen (deliver (on_message J E) a cb (rounds (read_buffer c @ bytes))) (mret (int (length bytes)))
        (w\<lparr>heap := (heap w)(a \<mapsto> c\<lparr>read_buffer := read_buffer c @ bytes\<rparr>)\<rparr>)"
    by (rule proxy_system.system_receive [OF proxy_system_any [OF assms(1)] I assms(3) a assms(4)])
  assume r: "receive_bytes (on_message J E) a bytes w = (Inr n, w')"
  let ?c = "c\<lparr>read_buffer := read_buffer c @ bytes\<rparr>"
  let ?w = "w\<lparr>heap := (heap w)(a \<mapsto> ?c)\<rparr>"
  have "proxy_inv (\<lambda>_ _. True) ?w"
    by (rule local_invariant.W_update [OF proxy_system.inv_local [OF proxy_system_any [OF assms(1)]] I assms(3)])
      (simp add: evolves_defs)
  moreover have "deliver (on_message J E) a cb (rounds (read_buffer c @ bytes)) ?w = (Inr (), w')"
    using r eq
    by (cases "deliver (on_message J E) a cb (rounds (read_buffer c @ bytes)) ?w";
        cases "fst (deliver (on_message J E) a cb (rounds (read_buffer c @ bytes)) ?w)") auto
  ultimately have "proxy_inv (\<lambda>_ _. True) w' \<and> a < next_addr w' \<and> (\<exists>c'. heap w' a = Some c' \<and>
      key_of c' = key_of ?c \<and> read_buffer c' = snd (last (([], read_buffer ?c) # rounds (read_buffer c @ bytes))))"
    using a by (intro proxy_system.system_buffer [OF proxy_system_any [OF assms(1)]]) simp_all
  then have "proxy_inv (\<lambda>_ _. True) w' \<and> (\<exists>c'. heap w' a = Some c' \<and> key_of c' = key_of ?c \<and>
      read_buffer c' = snd (split_lines (read_buffer c @ bytes)))"
    using rounds_rest [of "[]" "read_buffer c @ bytes"] by simp
  with assms(4) show "\<exists>c'. heap w' a = Some c' \<and> read_buffer c' = snd (split_lines (read_buffer c @ bytes)) \<and>
        message_cb c' = Some cb \<and> proxy_ok w'"
    by (auto simp: key_of_def proxy_inv_def)
qed

section \<open>A hang-up\<close>

text \<open>
  An error or hang-up event marks the connection, and the clean-up at the end of the round destroys it
  and whatever else is marked; nobody is told.
\<close>

definition hang_up :: "'j json_lib \<Rightarrow> env \<Rightarrow> int \<Rightarrow> 16 word \<Rightarrow> (proxy, unit) M" where
  "hang_up J E f ev = mthen (process_event E (on_message J E) (on_state E) f ev) (cleanup_closed E)"

lemma hang_up_apply:
  assumes "environment E" and "proxy_ok w" and "heap w a = Some c"
    and "ev AND (POLLERR OR POLLHUP) \<noteq> 0"
  obtains w' where "hang_up J E (fd c) ev w = (Inr (), w')" "proxy_ok w'" "heap w' a = None"
    "map_of (connections w') (fd c) = None" "pool w' = pool w" "wm w' = wm w" "timeouts w' = timeouts w"
    "\<And>b d. heap w b = Some d \<Longrightarrow> \<not> should_close d \<Longrightarrow> b \<noteq> a \<Longrightarrow> heap w' b = Some d"
    "\<And>b d. heap w' b = Some d \<Longrightarrow> heap w b = Some d"
proof -
  have ok: "loop_wf w" "loop_owned w" using assms(2) by (simp_all add: proxy_ok_def)
  have f: "map_of (connections w) (fd c) = Some a" using ok(2) assms(3) by (simp add: loop_owned_def)
  let ?w = "w\<lparr>heap := (heap w)(a \<mapsto> c\<lparr>should_close := True\<rparr>)\<rparr>"
  have I: "proxy_inv (\<lambda>_ _. True) w" using assms(2) by (simp add: proxy_inv_def)
  have w: "proxy_inv (\<lambda>_ _. True) ?w"
    by (rule local_invariant.W_update [OF proxy_system.inv_local [OF proxy_system_any [OF assms(1)]] I assms(3)])
      (simp add: evolves_defs)
  have p: "process_event E (on_message J E) (on_state E) (fd c) ev w = (Inr (), ?w)"
    using f assms(3,4) by (simp add: process_event_def get_connection_def)
  have "loop_wf ?w" using w by (simp add: proxy_inv_def proxy_ok_def)
  from cleanup_closed_apply [OF assms(1) this] obtain w' where w': "cleanup_closed E ?w = (Inr (), w')"
    "\<And>g. map_of (connections w') g =
       (case map_of (connections ?w) g of None \<Rightarrow> None | Some b \<Rightarrow> if closing ?w b then None else Some b)"
    "\<And>b. heap w' b = (if (\<exists>g. map_of (connections ?w) g = Some b) \<and> closing ?w b then None else heap ?w b)"
    "timeouts w' = timeouts ?w" "loop.more w' = loop.more ?w" by blast
  have c: "closing ?w a" by (simp add: closing_def)
  have "invar (proxy_inv (\<lambda>_ _. True)) (cleanup_closed E)"
    by (rule proxy_system.system_cleanup [OF proxy_system_any [OF assms(1)]])
  from invarD [OF this w w'(1)] have 1: "proxy_ok w'" by (simp add: proxy_inv_def)
  have 2: "hang_up J E (fd c) ev w = (Inr (), w')" using p w'(1) by (simp add: hang_up_def)
  have 3: "heap w' a = None" "map_of (connections w') (fd c) = None" using w'(2,3) f c by auto
  have 4: "pool w' = pool w" "wm w' = wm w" using w'(5) by (cases w'; cases w; simp)+
  have 5: "timeouts w' = timeouts w" using w'(4) by simp
  have 6: "heap w' b = Some d" if "heap w b = Some d" "\<not> should_close d" "b \<noteq> a" for b d
    using that w'(3) [of b] by (simp add: closing_def)
  have 7: "heap w b = Some d" if "heap w' b = Some d" for b d
    using that w'(3) [of b] c f by (auto split: if_splits)
  show thesis by (rule that [OF 2 1 3 4 5 6 7])
qed

section \<open>Paths through the system\<close>

lemma pool_connection_found:
  assumes "proxy_ok w" and "pool_conn (pool w) = Some b" and "heap w b = Some d"
  shows "fd d = pool_fd (pool w)" "map_of (connections w) (pool_fd (pool w)) = Some b"
proof -
  have ok: "pool_link w (pool w)" "loop_owned w" using assms(1) by (simp_all add: proxy_ok_def)
  show f: "fd d = pool_fd (pool w)" using ok(1) assms(2,3) by (simp add: pool_link_def)
  show "map_of (connections w) (pool_fd (pool w)) = Some b"
    using ok(2) assms(3) f unfolding loop_owned_def by metis
qed

lemma pool_connection_gone:
  assumes "proxy_ok w" and "pool_conn (pool w) = Some b" and "heap w b = None"
  shows "map_of (connections w) (pool_fd (pool w)) \<noteq> Some b"
  using assms loop_wf_lookup [of w "pool_fd (pool w)" b] by (auto simp: proxy_ok_def)

text \<open>Sending a job to a worker whose connection was destroyed.\<close>

lemma gone_stays:
  "invar (\<lambda>v. heap v a = None \<and> wm v = m) (send_job_to E j f)"
proof -
  have p: "invar (\<lambda>v. heap v a = None \<and> wm v = m) (ask g)"
    "invar (\<lambda>v. heap v a = None \<and> wm v = m) (deref b)"
    "invar (\<lambda>v. heap v a = None \<and> wm v = m) (impl_of b)"
    "invar (\<lambda>v. heap v a = None \<and> wm v = m) (emit e)"
    "invar (\<lambda>v. heap v a = None \<and> wm v = m) (mark_for_closing b)" for g :: "nat \<Rightarrow> int \<times> ssl_error" and b e
    by (auto simp: invar_def m_defs net_defs mark_for_closing_def split: option.splits)
  have "invar (\<lambda>v. heap v a = None \<and> wm v = m) (send_line E b l)" for b l
    unfolding send_line_def Let_def by (auto intro!: frame p split: prod.splits)
  then show ?thesis unfolding send_job_to_def by (intro frame)
qed

lemma broadcast_to_gone:
  assumes "f \<in> set fs" and "eligible (wm w) f" and "map_of (workers (wm w)) f = Some i"
    and "info_conn i = Some a" and "heap w a = None"
  shows "fst (mfor fs (send_job_to E j) w) = Inl Undefined"
  using assms
proof (induction fs arbitrary: w)
  case (Cons g fs)
  have u: "fst (send_job_to E j f v) = Inl Undefined" if "heap v a = None" "wm v = wm w" for v
    using that Cons.prems
    by (simp add: send_job_to_def worker_conn_def send_line_def eligible_def)
  obtain r v where g: "send_job_to E j g w = (r, v)" by (cases "send_job_to E j g w")
  have v: "heap v a = None \<and> wm v = wm w"
    using invarD [OF gone_stays [of a "wm w"] _ g] Cons.prems(5) by simp
  show ?case
  proof (cases r)
    case (Inl e)
    have "only_fails {Undefined} (send_job_to E j g :: ('a proxy_scheme, unit) M)"
      unfolding send_job_to_def by (intro safe worker_conn_safe) auto
    with Inl g have "e = Undefined" using only_failsD by fastforce
    with Inl g show ?thesis by simp
  next
    case (Inr x)
    have "g \<noteq> f"
    proof
      assume "g = f"
      with u [of w] g Inr Cons.prems(5) show False by simp
    qed
    then have "fst (mfor fs (send_job_to E j) v) = Inl Undefined"
      using Cons.prems v by (intro Cons.IH) auto
    with Inr g show ?thesis by simp
  qed
qed simp

lemma send_job_to_gone:
  assumes "environment E" and "eligible (wm w) f" and "map_of (workers (wm w)) f = Some i"
    and "info_conn i = Some a" and "heap w a = None"
  shows "fst (send_job E j w) = Inl Undefined"
proof -
  let ?m = "(wm w)\<lparr>current_job := j, has_job := True\<rparr>"
  let ?w = "w\<lparr>wm := ?m, ticks := Suc (ticks w)\<rparr>"
  have ne: "workers (wm w) \<noteq> []" using assms(3) by auto
  have "f \<in> set (hash_order E (ticks w) (map fst (workers (wm w))))"
    using assms(1,3) by (auto simp: environment.order_set dest: map_of_SomeD intro: rev_image_eqI)
  then have "fst (mfor (hash_order E (ticks w) (map fst (workers (wm w)))) (send_job_to E j) ?w) = Inl Undefined"
    using assms(2-5) by (intro broadcast_to_gone [where i = i and a = a]) (simp_all add: eligible_def)
  with ne show ?thesis by (simp add: send_job_def mthen_def mbind_get_wm)
qed

text \<open>The handler of a pool's message once it is read as a notification of a job.\<close>

lemma notify_message:
  assumes "json_parse J line = Inr d" and "json_contains J d ''method''"
    and "stratum_parse J (memory E (ticks w)) line = Inr req" and "req_method req = NOTIFY"
    and "from_notify J (req_params req) = Inr j"
    and "on_job E j (w\<lparr>ticks := Suc (ticks w), pool := (pool w)\<lparr>pool_job := j, pool_has_job := True\<rparr>\<rparr>) = (Inr (), w')"
  shows "on_message J E Pool_closure line w = (Inr (), w')"
  using assms
  by (simp add: on_pool_message_def handle_notification_def distribute_job_def wired_def mcatch_def mthen_def)

lemma worker_submits:
  assumes "heap w a = Some c" and "map_of (workers (wm w)) (fd c) = Some i"
    and "stratum_parse J (memory E (ticks w)) line = Inr req"
    and "req_method req = SUBMIT \<or> req_method req = MONERO_SUBMIT"
    and "share_fields J req = Inr (x, j, n, r)" and "takes_lines E w a"
    and "on_share E x j n r (w\<lparr>ticks := Suc (Suc (ticks w)),
      effects := effects w @ [Sent (fd c) (submit_response (req_id req) @ [newline])]\<rparr>) = (Inr (), w')"
  shows "on_message J E (Worker_closure a) line w = (Inr (), w')"
proof -
  let ?w = "w\<lparr>ticks := Suc (ticks w)\<rparr>"
  have "takes_lines E ?w a" using assms(6) takes_lines_heap [of ?w w E a] by simp
  from send_line_taken [OF this] assms(1)
  have s: "send_line E a (submit_response (req_id req)) ?w = (Inr True, w\<lparr>ticks := Suc (Suc (ticks w)),
      effects := effects w @ [Sent (fd c) (submit_response (req_id req) @ [newline])]\<rparr>)" by simp
  have "dispatch_request J E (Some (on_share E)) a req (req_method req) ?w = (Inr (), w')"
    using assms(1,2,4,5,7) s by (auto simp: handle_submit_def with_worker_def)
  with assms(1,3) show ?thesis by (simp add: on_worker_message_def mcatch_def)
qed

section \<open>Serving\<close>

text \<open>
  The states the loop goes through once \<open>main\<close> has entered it, with signals arriving between its rounds.
\<close>

inductive serving :: "'j json_lib \<Rightarrow> env \<Rightarrow> proxy \<Rightarrow> proxy \<Rightarrow> bool" for J E w where
  entered: "serving J E w (w\<lparr>running := True\<rparr>)"
| turn: "serving J E w v \<Longrightarrow>
    run_round E (on_message J E) (on_state E) (fire_timer E) v = (Inr again, v') \<Longrightarrow> serving J E w v'"
| signalled: "serving J E w v \<Longrightarrow> signal_handler s b v = (Inr r, v') \<Longrightarrow> serving J E w v'"

lemma serving_alive:
  assumes "environment E" and "proxy_ok w" and "\<exists>t \<in> set (timeouts w). recurring t" and "serving J E w v"
  shows "proxy_inv stays_alive v"
  using assms(4)
proof induction
  case entered
  have "proxy_ok (w\<lparr>running := True\<rparr>)" using assms(2) proxy_ok_cong [of "w\<lparr>running := True\<rparr>" w] by simp
  with assms(3) show ?case by (simp add: proxy_inv_def stays_alive_def)
next
  case (turn v again v')
  from invarD [OF proxy_system.system_round_invar [OF stays_alive_system [OF assms(1)]] turn.IH turn.hyps(2)]
  show ?case .
next
  case (signalled v s b r v')
  then obtain es where "v' = v\<lparr>effects := es\<rparr>" by (auto simp: signal_handler_def print_line_def)
  then show ?case using signalled.IH proxy_ok_cong [of v' v] by (simp add: proxy_inv_def)
qed

section \<open>The life of the pool's connection\<close>

text \<open>The loss of the pool in the wired process: it is announced, and then the manager retries.\<close>

lemma pool_lost_wired:
  assumes "pool_configs (pool w) \<noteq> []"
  shows "\<exists>e. pool_lost E (wired E) w =
    (let v = w\<lparr>effects := effects w @ [e], pool := (pool w)\<lparr>connected := False, authenticated := False,
               subscribed := False, pool_has_job := False\<rparr>\<rparr> in
     if reconnect_attempts (pool w) < 5
     then set_timeout E 5000 Reconnect_timer False
            (v\<lparr>pool := (pool v)\<lparr>reconnect_attempts := reconnect_attempts (pool w) + 1\<rparr>\<rparr>)
     else try_connect_pool E ((current_pool_index (pool w) + 1) mod length (pool_configs (pool w)))
            (v\<lparr>pool := (pool v)\<lparr>reconnect_attempts := 0\<rparr>\<rparr>))"
  using assms
  by (intro exI [of _ "Printed (''[gpu-proxy] Pool '' @ current_pool (pool w) @ '' is now DISCONNECTED'' @ [newline])"])
    (simp add: pool_lost_def notify_pool_state_def wired_def on_pool_change_def print_line_def mthen_def
      max_reconnect_attempts_def reconnect_delay_ms_def Let_def)

lemma pool_lost_retries:
  assumes "pool_configs (pool w) \<noteq> []" and "reconnect_attempts (pool w) < 5"
  shows "\<exists>e. pool_lost E (wired E) w = set_timeout E 5000 Reconnect_timer False
    (w\<lparr>effects := effects w @ [e], pool := (pool w)\<lparr>connected := False, authenticated := False,
       subscribed := False, pool_has_job := False, reconnect_attempts := Suc (reconnect_attempts (pool w))\<rparr>\<rparr>)"
  using pool_lost_wired [OF assms(1), of E] assms(2) by (auto simp: Let_def)

definition retry_timer :: "timeout \<Rightarrow> bool" where
  "retry_timer t \<longleftrightarrow> callback t = Reconnect_timer \<and> \<not> recurring t \<and> interval_ms t = 5000"

definition losses :: "env \<Rightarrow> nat \<Rightarrow> ('z proxy_scheme, unit) M" where
  "losses E n = mfor [0..<n] (\<lambda>_. pool_lost E (wired E))"

lemma losses_Suc: "losses E (Suc n) = mthen (losses E n) (pool_lost E (wired E))"
  by (simp add: losses_def mfor_append mthen_def mbind_def fun_eq_iff split: prod.split sum.split)

text \<open>What the losses leave as it was, and how far they have come.\<close>

definition waiting_since :: "'z proxy_scheme \<Rightarrow> nat \<Rightarrow> 'z proxy_scheme \<Rightarrow> bool" where
  "waiting_since w n w' \<longleftrightarrow>
     heap w' = heap w \<and> next_addr w' = next_addr w \<and> open_fds w' = open_fds w \<and>
     connections w' = connections w \<and> wm w' = wm w \<and> pool_configs (pool w') = pool_configs (pool w) \<and>
     current_pool_index (pool w') = current_pool_index (pool w) \<and> pool_conn (pool w') = pool_conn (pool w) \<and>
     share_to_worker (pool w') = share_to_worker (pool w) \<and> reconnect_attempts (pool w') = n \<and>
     (0 < n \<longrightarrow> \<not> connected (pool w') \<and> \<not> authenticated (pool w') \<and> \<not> pool_has_job (pool w')) \<and>
     (\<exists>ts. timeouts w' = timeouts w @ ts \<and> length ts = n \<and> (\<forall>t \<in> set ts. retry_timer t))"

lemma losses_retry:
  assumes "pool_configs (pool w) \<noteq> []" and "reconnect_attempts (pool w) = 0" and "n \<le> 5"
  shows "\<exists>w'. losses E n w = (Inr (), w') \<and> waiting_since w n w'"
  using assms(3)
proof (induction n)
  case 0
  then show ?case using assms(2) by (simp add: losses_def waiting_since_def)
next
  case (Suc n)
  then obtain v where v: "losses E n w = (Inr (), v)" "waiting_since w n v" by auto
  then have p: "pool_configs (pool v) \<noteq> []" "reconnect_attempts (pool v) = n"
    using assms(1) by (simp_all add: waiting_since_def)
  have "reconnect_attempts (pool v) < 5" using p(2) Suc.prems by simp
  from pool_lost_retries [OF p(1) this, of E] p(2) obtain e where
    "pool_lost E (wired E) v = set_timeout E 5000 Reconnect_timer False
      (v\<lparr>effects := effects v @ [e], pool := (pool v)\<lparr>connected := False, authenticated := False,
               subscribed := False, pool_has_job := False, reconnect_attempts := Suc n\<rparr>\<rparr>)" by blast
  with v show ?case
    by (auto simp: losses_Suc mthen_def mbind_def set_timeout_apply retry_timer_def waiting_since_def)
qed

lemma losses_failover:
  assumes "pool_configs (pool w) \<noteq> []" and "reconnect_attempts (pool w) = 0"
  shows "\<exists>v. waiting_since w 0 (v\<lparr>timeouts := timeouts w\<rparr>) \<and>
    losses E 6 w = try_connect_pool E ((current_pool_index (pool w) + 1) mod length (pool_configs (pool w))) v \<and>
    (\<exists>ts. timeouts v = timeouts w @ ts \<and> length ts = 5 \<and> (\<forall>t \<in> set ts. retry_timer t)) \<and>
    \<not> connected (pool v) \<and> \<not> pool_has_job (pool v)"
proof -
  obtain v where v: "losses E 5 w = (Inr (), v)" "waiting_since w 5 v"
    using losses_retry [OF assms, of 5 E] by auto
  then have p: "pool_configs (pool v) \<noteq> []" using assms(1) by (simp add: waiting_since_def)
  have "losses E 6 w = mthen (losses E 5) (pool_lost E (wired E)) w"
    using fun_cong [OF losses_Suc [of E 5], of w] by simp
  with v(1) have l: "losses E 6 w = pool_lost E (wired E) v" by (simp add: mthen_def)
  obtain e where "pool_lost E (wired E) v =
     (let v' = v\<lparr>effects := effects v @ [e], pool := (pool v)\<lparr>connected := False, authenticated := False,
               subscribed := False, pool_has_job := False\<rparr>\<rparr> in
      if reconnect_attempts (pool v) < 5
      then set_timeout E 5000 Reconnect_timer False
             (v'\<lparr>pool := (pool v')\<lparr>reconnect_attempts := reconnect_attempts (pool v) + 1\<rparr>\<rparr>)
      else try_connect_pool E ((current_pool_index (pool v) + 1) mod length (pool_configs (pool v)))
             (v'\<lparr>pool := (pool v')\<lparr>reconnect_attempts := 0\<rparr>\<rparr>))"
    using pool_lost_wired [OF p, of E] by blast
  with v(2) l show ?thesis
    by (intro exI [of _ "v\<lparr>effects := effects v @ [e], pool := (pool v)\<lparr>connected := False,
          authenticated := False, subscribed := False, pool_has_job := False, reconnect_attempts := 0\<rparr>\<rparr>"])
      (auto simp: waiting_since_def Let_def)
qed

lemma demo_proxy_fully_ok: "proxy_ok demo_proxy"
proof -
  have "callbacks_ok demo_proxy"
    using demo_worker_conn_fields(5) by (auto simp: callbacks_ok_def split: if_splits)
  moreover have "fds_accounted demo_proxy"
    by (auto simp: fds_accounted_def listening_def demo_workers_def split: if_splits)
  ultimately show ?thesis
    using demo_proxy_ok demo_manager_ok by (simp add: proxy_ok_def pool_link_def)
qed

lemma sixth_loss:
  assumes "environment E" and "proxy_ok w" and "pool_configs (pool w) \<noteq> []"
    and "reconnect_attempts (pool w) = 0"
    and k0: "k0 = (current_pool_index (pool w) + 1) mod length (pool_configs (pool w))"
  shows "\<exists>w' ts. losses E 6 w = (Inr (), w') \<and> reconnect_attempts (pool w') = 0 \<and>
      timeouts w' = timeouts w @ ts \<and> length ts = 5 \<and> (\<forall>t \<in> set ts. retry_timer t) \<and>
      (connections w' = connections w \<or>
       (\<exists>f k a. k0 \<le> k \<and> k < length (pool_configs (pool w)) \<and> current_pool_index (pool w') = k \<and>
          f \<notin> set (open_fds w) \<and> heap w a = None \<and> pool_conn (pool w') = Some a \<and>
          heap w' a = Some (pool_connection_object f (pool_configs (pool w) ! k)) \<and>
          map_of (connections w') = (map_of (connections w))(f \<mapsto> a)))"
proof -
  obtain v ts where v: "waiting_since w 0 (v\<lparr>timeouts := timeouts w\<rparr>)"
    "losses E 6 w = try_connect_from E k0 (drop k0 (pool_configs (pool v))) v"
    and ts: "timeouts v = timeouts w @ ts" "length ts = 5" "\<forall>t \<in> set ts. retry_timer t"
    using losses_failover [OF assms(3,4), of E] by (auto simp: try_connect_pool_def k0)
  have e: "heap v = heap w" "next_addr v = next_addr w" "open_fds v = open_fds w"
    "connections v = connections w" "pool_configs (pool v) = pool_configs (pool w)"
    "reconnect_attempts (pool v) = 0"
    using v(1) by (simp_all add: waiting_since_def)
  have "loop_wf w" using assms(2) by (simp add: proxy_ok_def)
  then have wf: "loop_wf v" using loop_ok_cong [of v w] e by simp
  show ?thesis
    using assms(1) wf
  proof (cases rule: try_connect_result [where i = k0 and ps = "drop k0 (pool_configs (pool v))"])
    case (none n es m q)
    then have "reconnect_attempts q = 0" using e(6) by (simp split: if_splits)
    with none(2) v(2) ts e(4) show ?thesis
      by (intro exI [of _ "v\<lparr>ticks := n, effects := es, next_addr := m, pool := q\<rparr>"] exI [of _ ts]) simp
  next
    case (one n es m k f)
    let ?p = "pool_configs (pool w) ! (k0 + k)"
    let ?w = "with_connection f (pool_connection_object f ?p) (v\<lparr>ticks := n, effects := es, next_addr := m,
       pool := (at_pool (k0 + k) ?p (pool v))\<lparr>pool_fd := f, pool_conn := Some m\<rparr>\<rparr>)"
    have k: "k0 + k < length (pool_configs (pool w))" "drop k0 (pool_configs (pool v)) ! k = ?p"
      using one(2) e(5) by simp_all
    have "heap w m = None" using \<open>loop_wf w\<close> one(1) e(2) by (simp add: loop_wf_def heap_wf_def)
    moreover have "losses E 6 w = (Inr (), ?w)" using v(2) one(5) k(2) by simp
    moreover have "pool ?w = (at_pool (k0 + k) ?p (pool v))\<lparr>pool_fd := f, pool_conn := Some m\<rparr>"
      "timeouts ?w = timeouts v" "heap ?w m = Some (pool_connection_object f ?p)"
      "map_of (connections ?w) = (map_of (connections w))(f \<mapsto> m)"
      using e(4) by (simp_all add: with_connection_def update_conv')
    ultimately show ?thesis
      using k(1) one(4) e(3,6) ts
      by (intro exI [of _ ?w] exI [of _ ts] conjI disjI2 exI [of _ f] exI [of _ "k0 + k"] exI [of _ m])
        simp_all
  qed
qed

text \<open>Property C23: the loss of the pool.  Each of the first five losses in a row is answered by one
  one-shot timer of five seconds and leaves connections and pool as they are; the sixth starts over with
  the pools from the next one of the list on, cyclically, and either connects to one of them, under a
  new descriptor, or to none.  In both cases five timers to reconnect are pending.\<close>

theorem five_losses_fail_over:
  assumes "environment E" and "proxy_ok w" and "pool_configs (pool w) \<noteq> []"
    and "reconnect_attempts (pool w) = 0"
  shows "(\<forall>n \<le> 5. \<exists>w' ts. losses E n w = (Inr (), w') \<and> reconnect_attempts (pool w') = n \<and>
      connections w' = connections w \<and> current_pool_index (pool w') = current_pool_index (pool w) \<and>
      timeouts w' = timeouts w @ ts \<and> length ts = n \<and> (\<forall>t \<in> set ts. retry_timer t)) \<and>
    (\<exists>w' ts. losses E 6 w = (Inr (), w') \<and> reconnect_attempts (pool w') = 0 \<and>
      timeouts w' = timeouts w @ ts \<and> length ts = 5 \<and> (\<forall>t \<in> set ts. retry_timer t) \<and>
      (connections w' = connections w \<or>
       (\<exists>f k a. (current_pool_index (pool w) + 1) mod length (pool_configs (pool w)) \<le> k \<and>
          k < length (pool_configs (pool w)) \<and> current_pool_index (pool w') = k \<and>
          f \<notin> set (open_fds w) \<and> heap w a = None \<and> pool_conn (pool w') = Some a \<and>
          heap w' a = Some (pool_connection_object f (pool_configs (pool w) ! k)) \<and>
          map_of (connections w') = (map_of (connections w))(f \<mapsto> a))))"
proof (intro conjI allI impI)
  fix n :: nat assume "n \<le> 5"
  from losses_retry [OF assms(3,4) this, of E] show "\<exists>w' ts. losses E n w = (Inr (), w') \<and>
      reconnect_attempts (pool w') = n \<and> connections w' = connections w \<and>
      current_pool_index (pool w') = current_pool_index (pool w) \<and>
      timeouts w' = timeouts w @ ts \<and> length ts = n \<and> (\<forall>t \<in> set ts. retry_timer t)"
    unfolding waiting_since_def by blast
qed (rule sixth_loss [OF assms refl])

theorem five_losses_fail_over_witness:
  "\<exists>w' ts. losses calm_env 6 demo_proxy = (Inr (), w') \<and> reconnect_attempts (pool w') = 0 \<and>
    timeouts w' = tick_timer # ts \<and> length ts = 5"
  using five_losses_fail_over [OF calm.environment_axioms demo_proxy_fully_ok, THEN conjunct2] by auto

text \<open>The answer of OpenSSL to a step of the pool's handshake.\<close>

definition awaits_pool :: "'z proxy_scheme \<Rightarrow> nat \<Rightarrow> connection \<Rightarrow> impl \<Rightarrow> bool" where
  "awaits_pool w a c i \<longleftrightarrow> pool_conn (pool w) = Some a \<and> heap w a = Some c \<and> pimpl c = Some i \<and>
     tls_handshake_pending i \<and> ssl_fd_attached i \<and> state c = CONNECTING"

lemma login_sent:
  assumes "current_pool_index (pool w) < length (pool_configs (pool w))" and "next_id (pool w) < int_max"
    and "pool_conn (pool w) = Some a" and "map_of (connections w) (pool_fd (pool w)) = Some a"
    and "heap w a = Some c" and "takes_lines E w a"
  shows "send_login E w = (Inr (), w\<lparr>pool := (pool w)\<lparr>next_id := next_id (pool w) + 1\<rparr>,
     ticks := Suc (ticks w), effects := effects w @ [Sent (fd c) (login_message
       (pool_configs (pool w) ! current_pool_index (pool w)) (next_id (pool w)) @ [newline])]\<rparr>)"
proof -
  let ?w = "w\<lparr>pool := (pool w)\<lparr>next_id := next_id (pool w) + 1\<rparr>\<rparr>"
  have "takes_lines E ?w a" using assms(6) takes_lines_heap [of ?w w E a] by simp
  from send_line_taken [OF this, of c] assms show ?thesis
    by (simp add: send_login_def get_next_id_apply pool_connection_def get_connection_def mbind_def)
qed

lemma awaits_pool_facts:
  assumes "proxy_ok w" and "awaits_pool w a c i" and "pool_configs (pool w) \<noteq> []"
  shows "ssl i" "map_of (connections w) (pool_fd (pool w)) = Some a" "state_cb c = Some Pool_closure"
    "current_pool_index (pool w) < length (pool_configs (pool w))"
    "continue_tls_handshake E on_st a w = handshake_step E on_st a w"
proof -
  have c: "pool_conn (pool w) = Some a" "heap w a = Some c" "pimpl c = Some i" "tls_handshake_pending i"
    "ssl_fd_attached i" using assms(2) by (simp_all add: awaits_pool_def)
  then show "ssl i" by (simp add: tls_handshake_pending_def)
  show "map_of (connections w) (pool_fd (pool w)) = Some a" by (rule pool_connection_found [OF assms(1) c(1,2)])
  have ok: "callbacks_ok w" "pool_ok (pool w)" "pool_link w (pool w)" using assms(1) by (simp_all add: proxy_ok_def)
  then have "ctype c = POOL" using c(1,2) by (simp add: pool_link_def)
  with ok(1) c(2) show "state_cb c = Some Pool_closure"
    unfolding callbacks_ok_def pool_object_def worker_object_def by (metis connection_type.distinct(1))
  show "current_pool_index (pool w) < length (pool_configs (pool w))" using ok(2) assms(3) by (simp add: pool_ok_def)
  show "continue_tls_handshake E on_st a w = handshake_step E on_st a w"
    using perform_tls_handshake_attached [OF c(2-5)] by (simp add: continue_tls_handshake_def)
qed

text \<open>The handshake completes, or fails.\<close>

lemma handshake_completes:
  assumes "proxy_ok w" and "awaits_pool w a c i" and "pool_configs (pool w) \<noteq> []"
    and "next_id (pool w) < int_max" and "\<forall>n l. fst (ssl_write E n a l) = int (length l)"
    and "ssl_connect E (ticks w) a = (1, err)"
  shows "\<exists>w' c' j. continue_tls_handshake E (on_state E) a w = (Inr True, w') \<and>
      heap w' = (heap w)(a \<mapsto> c') \<and> state c' = CONNECTED \<and> pimpl c' = Some j \<and> tls_handshake_complete j \<and>
      next_id (pool w') = next_id (pool w) + 1 \<and> effects w' = effects w @ [Sent (fd c) (login_message
        (pool_configs (pool w) ! current_pool_index (pool w)) (next_id (pool w)) @ [newline])]"
proof -
  note f = awaits_pool_facts [OF assms(1-3)]
  have c: "pool_conn (pool w) = Some a" "heap w a = Some c" "pimpl c = Some i" "state c = CONNECTING"
    using assms(2) by (simp_all add: awaits_pool_def)
  let ?j = "i\<lparr>tls_handshake_complete := True, tls_want_read := False, tls_want_write := False\<rparr>"
  let ?c = "c\<lparr>pimpl := Some ?j, state := CONNECTED\<rparr>"
  let ?v = "w\<lparr>ticks := Suc (ticks w), heap := (heap w)(a \<mapsto> ?c)\<rparr>"
  have t: "takes_lines E ?v a" using assms(5) f(1) by (simp add: takes_lines_def)
  have "continue_tls_handshake E (on_state E) a w = mthen (send_login E) (mret True) ?v"
    using handshake_step_apply [OF c(2,3) assms(6), of "on_state E"] c(4)
      set_state_calls [of "w\<lparr>ticks := Suc (ticks w), heap := (heap w)(a \<mapsto> c\<lparr>pimpl := Some ?j\<rparr>)\<rparr>" a
        "c\<lparr>pimpl := Some ?j\<rparr>" Pool_closure CONNECTED "on_state E"] f(3)
    by (simp add: f(5) mthen_def mbind_def)
  with login_sent [of ?v a ?c E] f(2,4) assms(4) c(1) t
  obtain w' where "continue_tls_handshake E (on_state E) a w = (Inr True, w')"
    "heap w' = (heap w)(a \<mapsto> ?c)" "next_id (pool w') = next_id (pool w) + 1"
    "effects w' = effects w @ [Sent (fd c) (login_message
      (pool_configs (pool w) ! current_pool_index (pool w)) (next_id (pool w)) @ [newline])]"
    by (simp add: mthen_def)
  then show ?thesis by (intro exI [of _ w'] exI [of _ ?c] exI [of _ ?j]) simp
qed

lemma handshake_fails:
  assumes "proxy_ok w" and "awaits_pool w a c i" and "pool_configs (pool w) \<noteq> []"
    and "reconnect_attempts (pool w) < 5" and "ssl_connect E (ticks w) a = (ret, err)"
    and "ret \<noteq> 1" and "err \<noteq> Ssl_want_read" and "err \<noteq> Ssl_want_write"
  shows "\<exists>w' c' t. continue_tls_handshake E (on_state E) a w = (Inr False, w') \<and>
      heap w' = (heap w)(a \<mapsto> c') \<and> state c' = ERROR \<and> should_close c' \<and>
      \<not> connected (pool w') \<and> \<not> authenticated (pool w') \<and> \<not> pool_has_job (pool w') \<and>
      timeouts w' = timeouts w @ [t] \<and> retry_timer t"
proof -
  note f = awaits_pool_facts [OF assms(1-3)]
  have c: "heap w a = Some c" "pimpl c = Some i" "state c = CONNECTING"
    using assms(2) by (simp_all add: awaits_pool_def)
  let ?j = "i\<lparr>tls_want_read := False, tls_want_write := False\<rparr>"
  let ?c = "c\<lparr>pimpl := Some ?j, state := ERROR\<rparr>"
  let ?v = "w\<lparr>ticks := Suc (ticks w), heap := (heap w)(a \<mapsto> ?c)\<rparr>"
  have "continue_tls_handshake E (on_state E) a w =
      mthen (pool_lost E (wired E)) (mthen (mark_for_closing a) (mret False)) ?v"
    using handshake_step_apply [OF c(1,2) assms(5), of "on_state E"] assms(6-8) c(3)
      set_state_calls [of "w\<lparr>heap := (heap w)(a \<mapsto> c\<lparr>pimpl := Some ?j\<rparr>), ticks := Suc (ticks w)\<rparr>" a
        "c\<lparr>pimpl := Some ?j\<rparr>" Pool_closure ERROR "on_state E"] f(3)
    by (simp add: f(5) mthen_def mbind_def)
  then have "\<exists>w' t. continue_tls_handshake E (on_state E) a w = (Inr False, w') \<and>
      heap w' = (heap w)(a \<mapsto> ?c\<lparr>should_close := True\<rparr>) \<and>
      \<not> connected (pool w') \<and> \<not> authenticated (pool w') \<and> \<not> pool_has_job (pool w') \<and>
      timeouts w' = timeouts w @ [t] \<and> retry_timer t"
    using pool_lost_retries [of ?v E] assms(3,4)
    by (auto simp: mthen_def mbind_def set_timeout_apply retry_timer_def)
  then show ?thesis by (elim exE conjE, intro exI conjI) (assumption | simp)+
qed


definition demo_shaking_impl :: impl where
  "demo_shaking_impl = fresh_impl\<lparr>ssl := True, ctx := True, ssl_fd_attached := True\<rparr>"

definition demo_shaking_conn :: connection where
  "demo_shaking_conn = demo_pool_conn\<lparr>state := CONNECTING, pimpl := Some demo_shaking_impl\<rparr>"

definition demo_shaking :: proxy where
  "demo_shaking = demo_proxy\<lparr>heap := (heap demo_proxy)(0 \<mapsto> demo_shaking_conn)\<rparr>"

lemma demo_shaking_ok: "proxy_ok demo_shaking"
proof -
  have "evolves demo_pool_conn demo_shaking_conn"
    by (simp add: demo_shaking_conn_def evolves_defs)
  from local_invariant.W_update [OF proxy_system.inv_local [OF proxy_system_any [OF calm.environment_axioms]]
      _ _ this, of demo_proxy 0] demo_proxy_fully_ok
  show ?thesis by (simp add: proxy_inv_def demo_shaking_def)
qed


end
