(* ===== verification/Broker.thy ===== *)
theory Broker
  imports System
begin

text \<open>
  What the proxy promises as a whole, without connections, sockets, messages or rounds: a broker of
  work between a pool and its miners.  The abstract broker and its steps, its laws, and the proof that
  the process built from the components refines it.
\<close>

section \<open>The abstract broker\<close>

text \<open>
  A miner as the broker sees it, and the broker: the next id of a share, the shares whose verdict is
  outstanding, whether shares can be passed on at present, the work on offer, and the miners by
  descriptor.
\<close>

record miner =
  miner_name :: string
  miner_listens :: bool
  miner_enabled :: bool

record broker =
  ids :: int
  in_flight :: "int \<Rightarrow> string option"
  online :: bool
  offer :: "job option"
  miners :: "int \<Rightarrow> miner option"

text \<open>
  The steps of the broker; \<open>P\<close> says which names may mine.  An id is used for a share or for something
  else (a login), and only ids below the largest \<open>int\<close> exist.
\<close>

inductive broker_step :: "(string \<Rightarrow> bool) \<Rightarrow> broker \<Rightarrow> broker \<Rightarrow> bool" for P where
  switch: "broker_step P b (b\<lparr>online := c\<rparr>)"
| use_id: "ids b < int_max \<Longrightarrow> broker_step P b (b\<lparr>ids := ids b + 1\<rparr>)"
| issue: "online b \<Longrightarrow> ids b < int_max \<Longrightarrow>
    broker_step P b (b\<lparr>ids := ids b + 1, in_flight := (in_flight b)(ids b \<mapsto> x)\<rparr>)"
| settle: "in_flight b i = Some x \<Longrightarrow> broker_step P b (b\<lparr>in_flight := (in_flight b)(i := None)\<rparr>)"
| publish: "broker_step P b (b\<lparr>offer := Some j\<rparr>)"
| admit: "broker_step P b (b\<lparr>miners := (miners b)(f \<mapsto>
    \<lparr>miner_name = [], miner_listens = False, miner_enabled = False\<rparr>)\<rparr>)"
| rename: "miners b f = Some m \<Longrightarrow>
    broker_step P b (b\<lparr>miners := (miners b)(f \<mapsto> m\<lparr>miner_name := x\<rparr>)\<rparr>)"
| listen: "miners b f = Some m \<Longrightarrow>
    broker_step P b (b\<lparr>miners := (miners b)(f \<mapsto> m\<lparr>miner_listens := True\<rparr>)\<rparr>)"
| enable: "miners b f = Some m \<Longrightarrow> P (miner_name m) \<Longrightarrow>
    broker_step P b (b\<lparr>miners := (miners b)(f \<mapsto> m\<lparr>miner_enabled := True\<rparr>)\<rparr>)"
| leave: "broker_step P b (b\<lparr>miners := (miners b)(f := None)\<rparr>)"

abbreviation broker_steps :: "(string \<Rightarrow> bool) \<Rightarrow> broker \<Rightarrow> broker \<Rightarrow> bool" where
  "broker_steps P \<equiv> (broker_step P)\<^sup>*\<^sup>*"

text \<open>The broker before anything has happened.\<close>

definition idle_broker :: broker where
  "idle_broker = \<lparr>ids = 1, in_flight = Map.empty, online = False, offer = None, miners = Map.empty\<rparr>"

section \<open>The laws of the broker\<close>

text \<open>
  Ids are used once: whatever happens, an id below the next one keeps the worker it was given to until
  its verdict has been passed on, and is never given out again.  Work on offer is not withdrawn.
\<close>

lemma step_ids:
  "broker_step P b b' \<Longrightarrow> ids b \<le> ids b' \<and> (ids b \<le> int_max \<longrightarrow> ids b' \<le> int_max)"
  by (erule broker_step.cases) auto

lemma step_in_flight:
  "broker_step P b b' \<Longrightarrow> i < ids b \<Longrightarrow> in_flight b' i = in_flight b i \<or> in_flight b' i = None"
  by (erule broker_step.cases) auto

lemma step_offer: "broker_step P b b' \<Longrightarrow> offer b \<noteq> None \<Longrightarrow> offer b' \<noteq> None"
  by (erule broker_step.cases) auto

lemma steps_ids:
  assumes "broker_steps P b b'"
  shows "ids b \<le> ids b' \<and> (ids b \<le> int_max \<longrightarrow> ids b' \<le> int_max)"
  using assms by induction (auto dest: step_ids)

lemma steps_in_flight:
  assumes "broker_steps P b b'" and "i < ids b"
  shows "in_flight b' i = in_flight b i \<or> in_flight b' i = None"
  using assms(1)
proof induction
  case (step c d)
  then have "i < ids c" using steps_ids [of P b c] assms(2) by auto
  from step_in_flight [OF step.hyps(2) this] step.IH show ?case by auto
qed simp

lemma steps_offer:
  assumes "broker_steps P b b'" and "offer b \<noteq> None"
  shows "offer b' \<noteq> None"
  using assms by induction (auto dest: step_offer)

text \<open>A share is in flight only under an id that has been given out.\<close>

lemma steps_given_out:
  assumes "broker_steps P b b'" and "\<And>i x. in_flight b i = Some x \<Longrightarrow> i < ids b"
  shows "in_flight b' i = Some x \<Longrightarrow> i < ids b'"
  using assms(1)
proof (induction arbitrary: i x)
  case base
  then show ?case by (rule assms(2))
next
  case (step c d)
  from step.hyps(2) step.prems show ?case
    by (cases rule: broker_step.cases) (use step.IH in \<open>force split: if_splits\<close>)+
qed

text \<open>When no name may mine, nobody is enabled; a miner becomes enabled under a name that may.\<close>

lemma step_enabled:
  assumes "broker_step P b b'" and "miners b' f = Some m'" and "miner_enabled m'"
  shows "\<exists>m. miners b f = Some m \<and> (miner_enabled m \<or> P (miner_name m) \<and> miner_name m' = miner_name m)"
  using assms by (cases rule: broker_step.cases) (auto split: if_splits)

section \<open>The broker in the process\<close>

definition miner_view :: "worker_info \<Rightarrow> miner" where
  "miner_view i = \<lparr>miner_name = worker_id i, miner_listens = worker_subscribed i,
     miner_enabled = worker_authorized i\<rparr>"

definition broker_view :: "'z proxy_scheme \<Rightarrow> broker" where
  "broker_view w = \<lparr>ids = next_id (pool w), in_flight = map_of (share_to_worker (pool w)),
     online = (connected (pool w) \<and> pool_has_job (pool w)),
     offer = (if has_job (wm w) then Some (current_job (wm w)) else None),
     miners = (\<lambda>f. map_option miner_view (map_of (workers (wm w)) f))\<rparr>"

text \<open>\<open>w\<close> has been reached from the broker \<open>b0\<close> by its steps.\<close>

definition simulates :: "(string \<Rightarrow> bool) \<Rightarrow> broker \<Rightarrow> 'z proxy_scheme \<Rightarrow> bool" where
  "simulates P b0 w \<longleftrightarrow> worker_passes (wm w) = P \<and> broker_steps P b0 (broker_view w)"

lemma simulates_step:
  fixes w w' :: "'z proxy_scheme"
  shows "simulates P b0 w \<Longrightarrow> broker_step P (broker_view w) (broker_view w') \<Longrightarrow>
   worker_passes (wm w') = worker_passes (wm w) \<Longrightarrow> simulates P b0 w'"
  unfolding simulates_def by (auto intro: rtranclp.rtrancl_into_rtrancl)

lemma simulates_same:
  fixes w w' :: "'z proxy_scheme"
  shows "simulates P b0 w \<Longrightarrow> pool w' = pool w \<Longrightarrow> wm w' = wm w \<Longrightarrow> simulates P b0 w'"
  by (simp add: simulates_def broker_view_def cong: if_cong)

lemma simulates_local: "local_invariant (simulates P b0)"
  by unfold_locales (auto elim: simulates_same)

interpretation broker_inv: local_invariant "simulates P b0" for P b0
  by (rule simulates_local)

text \<open>What leaves both managers alone is no step.\<close>

lemma managers_more: "loop.more (w :: 'z proxy_scheme) = loop.more w' \<Longrightarrow> pool w = pool w' \<and> wm w = wm w'"
  by (cases w; cases w') simp

lemma quiet_refines:
  assumes "keeps loop.more (m :: ('z proxy_scheme, 'a) M)"
  shows "invar (simulates P b0) m"
  unfolding invar_def
proof (intro allI impI)
  fix w :: "'z proxy_scheme" assume w: "simulates P b0 w"
  have "loop.more (snd (m w)) = loop.more w" using assms by (simp add: keeps_def)
  from simulates_same [OF w] managers_more [OF this] show "simulates P b0 (snd (m w))" by auto
qed

lemma quiet_net: "keeps net.more (m :: ('z proxy_scheme, 'a) M) \<Longrightarrow> invar (simulates P b0) m"
  by (intro quiet_refines keeps_more_loop(4))

lemma connecting_more:
  "keeps net.more (new_connection E no_callback f ty name)"
  "keeps net.more (connect_to_pool E no_callback host port name)"
  "keeps net.more (delete_connection a)" "keeps net.more (mark_for_closing a)"
  "keeps net.more (set_state_callback a cb)" "keeps net.more (set_message_callback a cb)"
  unfolding connect_to_pool_def new_connection_def setup_tls_def create_ssl_context_def set_state_def
    no_callback_def delete_connection_def mark_for_closing_def set_state_callback_def
    set_message_callback_def
  by (auto intro!: frame split: prod.splits)

lemma loop_more:
  "keeps loop.more (add_connection a)" "keeps loop.more (set_timeout E k t rec)"
  "keeps loop.more (erase_connection f a)"
  unfolding add_connection_def set_timeout_def now_ms_def erase_connection_def
  by (intro frame keeps_more_loop(4) connecting_more; simp add: keeps_def split: prod.split)+

lemmas quiet_frames =
  quiet_net [OF connecting_more(1)] quiet_net [OF connecting_more(2)] quiet_net [OF connecting_more(4)]
  quiet_net [OF connecting_more(5)] quiet_net [OF connecting_more(6)] quiet_net [OF keeps_send_line(1)]
  quiet_net [OF keeps_more_prims(3)] quiet_refines [OF loop_more(1)] quiet_refines [OF loop_more(2)]
  broker_inv.W_prims

section \<open>The pool side refines the broker\<close>

lemma set_pool_quiet:
  assumes "\<And>p. next_id (g p) = next_id p" and "\<And>p. share_to_worker (g p) = share_to_worker p"
  shows "invar (simulates P b0) (set_pool g)"
  unfolding invar_def
proof (intro allI impI)
  fix w :: "'z proxy_scheme" assume w: "simulates P b0 w"
  have v: "broker_view (w\<lparr>pool := g (pool w)\<rparr>) =
      (broker_view w)\<lparr>online := connected (g (pool w)) \<and> pool_has_job (g (pool w))\<rparr>"
    by (simp add: broker_view_def assms)
  have "simulates P b0 (w\<lparr>pool := g (pool w)\<rparr>)"
    by (rule simulates_step [OF w]) (simp_all add: v broker_step.switch)
  then show "simulates P b0 (snd (set_pool g w))" by simp
qed

lemma get_next_id_refines: "invar (simulates P b0) get_next_id"
  unfolding invar_def
proof (intro allI impI)
  fix w :: "'z proxy_scheme" assume w: "simulates P b0 w"
  let ?w = "w\<lparr>pool := (pool w)\<lparr>next_id := next_id (pool w) + 1\<rparr>\<rparr>"
  show "simulates P b0 (snd (get_next_id w))"
  proof (cases "next_id (pool w) < int_max")
    case True
    have v: "broker_view ?w = (broker_view w)\<lparr>ids := ids (broker_view w) + 1\<rparr>"
      by (simp add: broker_view_def)
    have "ids (broker_view w) < int_max" using True by (simp add: broker_view_def)
    then have "simulates P b0 ?w"
      by (intro simulates_step [OF w]) (simp_all add: v broker_step.use_id)
    with True show ?thesis by (simp add: get_next_id_apply)
  next
    case False
    with w show ?thesis by (simp add: get_next_id_apply)
  qed
qed

lemma pool_line_refines:
  "invar (simulates P b0) (mbind pool_connection (\<lambda>r. case r of None \<Rightarrow> mret ()
     | Some a \<Rightarrow> mbind (send_line E a l) (\<lambda>_. mret ())))"
  "invar (simulates P b0) (pool_at i)"
  unfolding pool_connection_def get_connection_def pool_at_def
  by (intro frame quiet_frames)+

lemma send_login_refines: "invar (simulates P b0) (send_login E)"
  unfolding send_login_def by (intro frame get_next_id_refines pool_line_refines)

lemma submit_share_refines: "invar (simulates P b0) (submit_share E x j n r)"
  unfolding invar_def
proof (intro allI impI)
  fix w :: "'z proxy_scheme" assume w: "simulates P b0 w"
  let ?i = "next_id (pool w)"
  let ?w = "w\<lparr>pool := (pool w)\<lparr>next_id := ?i + 1,
          share_to_worker := AList.update ?i x (share_to_worker (pool w))\<rparr>\<rparr>"
  let ?send = "\<lambda>n'. mbind (get_pool current_pool_index) (\<lambda>i. mbind (pool_at i) (\<lambda>_.
        mbind pool_connection (\<lambda>r'. case r' of None \<Rightarrow> mret ()
        | Some a \<Rightarrow> mbind (send_line E a (submit_message n' x j n r)) (\<lambda>_. mret ()))))"
  consider "\<not> connected (pool w) \<or> \<not> pool_has_job (pool w)" | "int_max \<le> ?i"
    | "connected (pool w)" "pool_has_job (pool w)" "?i < int_max" by linarith
  then show "simulates P b0 (snd (submit_share E x j n r w))"
  proof cases
    case 1
    with w show ?thesis by (simp add: submit_share_def)
  next
    case 2
    with w show ?thesis by (simp add: submit_share_def get_next_id_apply)
  next
    case 3
    have v: "broker_view ?w = (broker_view w)\<lparr>ids := ids (broker_view w) + 1,
        in_flight := (in_flight (broker_view w))(ids (broker_view w) \<mapsto> x)\<rparr>"
      by (simp add: broker_view_def update_conv')
    have "online (broker_view w)" "ids (broker_view w) < int_max"
      using 3 by (simp_all add: broker_view_def)
    then have s: "simulates P b0 ?w"
      by (intro simulates_step [OF w]) (simp_all add: v broker_step.issue)
    have "invar (simulates P b0) (?send ?i)" by (intro frame pool_line_refines)
    then have "simulates P b0 (snd (?send ?i ?w))" using s unfolding invar_def by blast
    with 3 show ?thesis by (simp add: submit_share_def get_next_id_apply)
  qed
qed

lemma print_line_refines: "invar (simulates P b0) (print_line x)"
  unfolding print_line_def by (rule broker_inv.W_prims)

lemma on_share_refines: "invar (simulates P b0) (on_share E x j n r)"
  unfolding on_share_def by (intro frame print_line_refines submit_share_refines)

lemma settle_refines: "invar (simulates P b0) (set_pool (\<lambda>p. p\<lparr>share_to_worker :=
    AList.delete i (share_to_worker p)\<rparr>))"
  unfolding invar_def
proof (intro allI impI)
  fix w :: "'z proxy_scheme" assume w: "simulates P b0 w"
  let ?w = "w\<lparr>pool := (pool w)\<lparr>share_to_worker := AList.delete i (share_to_worker (pool w))\<rparr>\<rparr>"
  have v: "broker_view ?w = (broker_view w)\<lparr>in_flight := (in_flight (broker_view w))(i := None)\<rparr>"
    by (simp add: broker_view_def delete_conv')
  have "simulates P b0 ?w"
  proof (cases "in_flight (broker_view w) i")
    case None
    then have "broker_view ?w = broker_view w" unfolding v by (simp add: fun_upd_idem)
    with w show ?thesis by (simp add: simulates_def)
  next
    case (Some x)
    show ?thesis
      by (rule simulates_step [OF w]) (simp_all add: v broker_step.settle [OF Some])
  qed
  then show "simulates P b0 (snd (set_pool (\<lambda>p. p\<lparr>share_to_worker :=
    AList.delete i (share_to_worker p)\<rparr>) w))" by simp
qed

text \<open>A job for the workers is published.\<close>

lemma simulates_wm:
  assumes "simulates P b0 w" and "broker_steps P (broker_view w) (broker_view (w\<lparr>wm := m\<rparr>))"
    and "worker_configs m = worker_configs (wm w)" and "require_whitelist m = require_whitelist (wm w)"
  shows "simulates P b0 (w\<lparr>wm := m\<rparr>)"
proof -
  have "worker_passes m = worker_passes (wm w)" by (rule ext) (rule passes_cong [OF assms(3,4)])
  with assms(1,2) show ?thesis unfolding simulates_def by (auto elim: rtranclp_trans)
qed

lemma send_job_to_refines: "invar (simulates P b0) (send_job_to E j f)"
  unfolding send_job_to_def by (intro frame quiet_frames)

lemma set_job_refines: "invar (simulates P b0) (set_wm (\<lambda>m. m\<lparr>current_job := j, has_job := True\<rparr>))"
  unfolding invar_def
proof (intro allI impI)
  fix w :: "'z proxy_scheme" assume w: "simulates P b0 w"
  let ?w = "w\<lparr>wm := (wm w)\<lparr>current_job := j, has_job := True\<rparr>\<rparr>"
  have v: "broker_view ?w = (broker_view w)\<lparr>offer := Some j\<rparr>" by (simp add: broker_view_def)
  have "simulates P b0 ?w"
    by (rule simulates_wm [OF w]) (simp_all add: v broker_step.publish r_into_rtranclp)
  then show "simulates P b0 (snd (set_wm (\<lambda>m. m\<lparr>current_job := j, has_job := True\<rparr>) w))" by simp
qed

lemma send_job_refines: "invar (simulates P b0) (send_job E j)"
  unfolding send_job_def by (intro frame set_job_refines send_job_to_refines quiet_frames)

lemma send_current_refines: "invar (simulates P b0) (send_current_job E)"
  unfolding send_current_job_def by (intro frame send_job_refines)

lemma on_job_refines: "invar (simulates P b0) (on_job E j)"
  unfolding on_job_def by (intro frame print_line_refines send_job_refines)

text \<open>The connection to the pool.\<close>

lemma try_connect_refines: "invar (simulates P b0) (try_connect_from E i ps)"
proof (induction ps arbitrary: i)
  case Nil
  show ?case unfolding try_connect_from.simps by (rule frame)
next
  case (Cons p ps)
  show ?case
    unfolding try_connect_from.simps
    by (intro frame Cons.IH set_pool_quiet quiet_frames) simp_all
qed

lemma wired_callbacks:
  "job_cb (wired E) = Some (on_job E)" "share_response_cb (wired E) = Some on_share_response"
  "pool_state_cb (wired E) = Some on_pool_change"
  by (simp_all add: wired_def)

lemma notify_refines: "invar (simulates P b0) (notify_pool_state (wired E) b)"
  unfolding notify_pool_state_def wired_callbacks option.case on_pool_change_def
  by (intro frame print_line_refines)

lemma pool_lost_refines: "invar (simulates P b0) (pool_lost E (wired E))"
  unfolding pool_lost_def try_connect_pool_def
  by (intro frame set_pool_quiet try_connect_refines notify_refines quiet_frames) simp_all

lemma on_pool_state_refines: "invar (simulates P b0) (on_pool_state E (wired E) s)"
  by (cases s)
    (auto intro!: frame set_pool_quiet notify_refines send_login_refines pool_lost_refines)

lemma distribute_refines: "invar (simulates P b0) (distribute_job (wired E))"
  unfolding distribute_job_def wired_callbacks option.case by (intro frame on_job_refines)

lemma assign_refines: "invar (simulates P b0) (assign_job v conv g)"
  unfolding assign_job_def by (intro frame set_pool_quiet) simp_all

lemma route_refines: "invar (simulates P b0) (route_share_response J (wired E) resp)"
  unfolding route_share_response_def wired_callbacks option.case(2) Let_def on_share_response_def
  by (intro frame print_line_refines settle_refines)

lemma check_status_refines: "invar (simulates P b0) (check_status J E (wired E) resp)"
  unfolding check_status_def
  by (intro frame set_pool_quiet on_pool_state_refines route_refines) simp_all

lemma handle_response_refines: "invar (simulates P b0) (handle_response J E (wired E) resp)"
  unfolding handle_response_def accept_login_job_def
  by (intro frame set_pool_quiet on_pool_state_refines check_status_refines distribute_refines assign_refines)
    simp_all

lemma handle_notification_refines: "invar (simulates P b0) (handle_notification J (wired E) req)"
  unfolding handle_notification_def Let_def
  by (intro frame set_pool_quiet distribute_refines assign_refines) simp_all

lemma on_pool_message_refines: "invar (simulates P b0) (on_pool_message J E (wired E) line)"
  unfolding on_pool_message_def
  by (intro frame quiet_frames handle_response_refines handle_notification_refines)

section \<open>The worker side refines the broker\<close>

lemma update_worker_simulates:
  assumes "simulates P b0 w" and i: "map_of (workers (wm w)) f = Some i"
    and "broker_steps P (broker_view w)
      ((broker_view w)\<lparr>miners := (miners (broker_view w))(f \<mapsto> miner_view (u i))\<rparr>)"
  shows "simulates P b0 (snd (update_worker f u w))"
proof -
  let ?m = "(wm w)\<lparr>workers := AList.update f (u i) (workers (wm w))\<rparr>"
  have v: "broker_view (w\<lparr>wm := ?m\<rparr>) =
      (broker_view w)\<lparr>miners := (miners (broker_view w))(f \<mapsto> miner_view (u i))\<rparr>"
    by (simp add: broker_view_def update_conv' fun_eq_iff cong: if_cong)
  have "simulates P b0 (w\<lparr>wm := ?m\<rparr>)"
    by (rule simulates_wm [OF assms(1)]) (simp_all add: v assms(3))
  with i show ?thesis by (simp add: update_worker_apply)
qed

lemma update_worker_missing: "map_of (workers (wm w)) f = None \<Longrightarrow> snd (update_worker f u w) = w"
  by (simp add: update_worker_def)

lemma view_miner: "map_of (workers (wm w)) f = Some i \<Longrightarrow> miners (broker_view w) f = Some (miner_view i)"
  by (simp add: broker_view_def)

lemma listen_refines: "invar (simulates P b0) (update_worker f (\<lambda>i. i\<lparr>worker_subscribed := True\<rparr>))"
  unfolding invar_def
proof (intro allI impI)
  fix w :: "'z proxy_scheme" assume w: "simulates P b0 w"
  show "simulates P b0 (snd (update_worker f (\<lambda>i. i\<lparr>worker_subscribed := True\<rparr>) w))"
  proof (cases "map_of (workers (wm w)) f")
    case None
    with w show ?thesis by (simp add: update_worker_missing)
  next
    case (Some i)
    have "miner_view (i\<lparr>worker_subscribed := True\<rparr>) = (miner_view i)\<lparr>miner_listens := True\<rparr>"
      by (simp add: miner_view_def)
    with broker_step.listen [OF view_miner [OF Some], of P] show ?thesis
      by (intro update_worker_simulates [OF w Some]) (simp add: r_into_rtranclp)
  qed
qed

text \<open>The worker behind a descriptor has told its name.\<close>

definition named :: "int \<Rightarrow> string \<Rightarrow> 'z proxy_scheme \<Rightarrow> bool" where
  "named f x w \<longleftrightarrow> (\<exists>i. map_of (workers (wm w)) f = Some i \<and> worker_id i = x)"

lemma identify_simulates:
  assumes w: "simulates P b0 w"
    and rest: "\<And>v. simulates P b0 v \<Longrightarrow> named f x v \<Longrightarrow> simulates P b0 (snd (rest v))"
  shows "simulates P b0 (snd (mthen (update_worker f (\<lambda>i. i\<lparr>worker_id := x\<rparr>)) rest w))"
proof (cases "map_of (workers (wm w)) f")
  case None
  then have "update_worker f (\<lambda>i. i\<lparr>worker_id := x\<rparr>) w = (Inl Undefined, w)"
    by (simp add: update_worker_def)
  with w show ?thesis by (simp add: mthen_def mbind_def)
next
  case (Some i)
  then obtain v where e: "update_worker f (\<lambda>i. i\<lparr>worker_id := x\<rparr>) w = (Inr (), v)"
    and n: "named f x v" by (simp add: update_worker_apply named_def update_conv')
  have "miner_view (i\<lparr>worker_id := x\<rparr>) = (miner_view i)\<lparr>miner_name := x\<rparr>"
    by (simp add: miner_view_def)
  with broker_step.rename [OF view_miner [OF Some], of P x]
  have "simulates P b0 (snd (update_worker f (\<lambda>i. i\<lparr>worker_id := x\<rparr>) w))"
    by (intro update_worker_simulates [OF w Some]) (simp add: r_into_rtranclp)
  with e have "simulates P b0 (snd (rest v))" by (intro rest [OF _ n]) simp
  with e show ?thesis by (simp add: mthen_def mbind_def)
qed

lemma answer_simulates:
  fixes w :: "'z proxy_scheme"
  assumes w: "simulates P b0 w" "named f x w" and "allowed \<longrightarrow> P x"
    and u: "\<And>i. miner_view (u i) = (miner_view i)\<lparr>miner_enabled := True\<rparr> \<or>
      miner_view (u i) = (miner_view i)\<lparr>miner_listens := True, miner_enabled := True\<rparr>"
  shows "simulates P b0 (snd (mbind (send_line E a l)
    (\<lambda>_. if allowed then update_worker f u else reject_worker i) w))"
proof -
  obtain r v where s: "send_line E a l w = (r, v)" by (cases "send_line E a l w")
  have "loop.more v = loop.more w" using keepsD [OF keeps_more_loop(4) [OF keeps_send_line(1)] s] .
  from managers_more [OF this] w have v: "simulates P b0 v" "named f x v"
    using invarD [OF quiet_net [OF keeps_send_line(1)] w(1) s] by (auto simp: named_def)
  have "invar (simulates P b0) (reject_worker i :: ('z proxy_scheme, unit) M)"
    unfolding reject_worker_def by (intro frame quiet_frames)
  then have rej: "simulates P b0 (snd (reject_worker i v))" using v(1) by (simp add: invar_def)
  have "simulates P b0 (snd (update_worker f u v))" if P: "P x"
  proof -
    obtain i where i: "map_of (workers (wm v)) f = Some i" "worker_id i = x"
      using v(2) by (auto simp: named_def)
    let ?b = "broker_view v" and ?m = "miner_view i"
    have m: "miners ?b f = Some ?m" "P (miner_name ?m)"
      using i P by (simp_all add: broker_view_def miner_view_def)
    have one: "broker_steps P ?b (?b\<lparr>miners := (miners ?b)(f \<mapsto> ?m\<lparr>miner_enabled := True\<rparr>)\<rparr>)"
      by (rule r_into_rtranclp, rule broker_step.enable, rule m(1), rule m(2))
    let ?c = "?b\<lparr>miners := (miners ?b)(f \<mapsto> ?m\<lparr>miner_listens := True\<rparr>)\<rparr>"
    have "broker_step P ?b ?c" by (rule broker_step.listen, rule m(1))
    moreover have "broker_step P ?c
        (?c\<lparr>miners := (miners ?c)(f \<mapsto> ?m\<lparr>miner_listens := True, miner_enabled := True\<rparr>)\<rparr>)"
      using broker_step.enable [of ?c f "?m\<lparr>miner_listens := True\<rparr>" P] m(2) by simp
    ultimately have two: "broker_steps P ?b (?b\<lparr>miners := (miners ?b)(f \<mapsto>
        ?m\<lparr>miner_listens := True, miner_enabled := True\<rparr>)\<rparr>)"
      by (auto intro: converse_rtranclp_into_rtranclp)
    show ?thesis
      using u [of i] one two by (intro update_worker_simulates [OF v(1) i(1)]) auto
  qed
  with assms(3) s rej v(1) show ?thesis by (cases r) (auto simp: mbind_def)
qed

lemma with_worker_refines:
  "(\<And>f i. invar (simulates P b0) (body f i)) \<Longrightarrow> invar (simulates P b0) (with_worker a body)"
  unfolding with_worker_def by (intro frame quiet_frames)

lemma subscribe_refines: "invar (simulates P b0) (handle_subscribe E a req)"
  unfolding handle_subscribe_def
  by (intro with_worker_refines frame listen_refines send_current_refines quiet_frames)

lemma identify_refines:
  assumes "\<And>w. simulates P b0 w \<Longrightarrow> named f x w \<Longrightarrow> simulates P b0 (snd (rest w))"
  shows "invar (simulates P b0) (mthen (update_worker f (\<lambda>i. i\<lparr>worker_id := x\<rparr>)) rest)"
  unfolding invar_def by (intro allI impI identify_simulates assms)

lemma allowed_iff: "simulates P b0 w \<Longrightarrow> worker_passes (wm w) x = P x"
  by (simp add: simulates_def)

lemma authorize_refines: "invar (simulates P b0) (handle_authorize J E a req)"
  unfolding handle_authorize_def
  by (rule with_worker_refines, rule invar_mbind, (intro frame)[1], rule identify_refines,
      simp only: mbind_get_wm, rule answer_simulates, assumption, assumption, simp_all add: miner_view_def allowed_iff)

lemma login_refines: "invar (simulates P b0) (handle_login J E a req)"
  unfolding handle_login_def
  by (rule with_worker_refines, rule invar_mbind, (intro frame)[1], rule identify_refines,
      simp only: mbind_get_wm, rule answer_simulates, assumption, assumption, simp_all add: miner_view_def allowed_iff)

lemma submit_refines: "invar (simulates P b0) (handle_submit J E (Some (on_share E)) a req)"
  unfolding handle_submit_def
  by (intro with_worker_refines frame) (auto intro!: frame quiet_frames on_share_refines)

lemma on_worker_message_refines:
  "invar (simulates P b0) (on_worker_message J E (Some (on_share E)) a line)"
proof -
  have "invar (simulates P b0) (dispatch_request J E (Some (on_share E)) a req m)" for req m
    by (cases m) (auto intro: subscribe_refines authorize_refines login_refines submit_refines frame)
  then show ?thesis unfolding on_worker_message_def by (intro frame quiet_frames)
qed

text \<open>Workers come and go.\<close>

lemma leave_refines: "invar (simulates P b0) (set_wm (\<lambda>m. m\<lparr>workers := AList.delete f (workers m)\<rparr>))"
  unfolding invar_def
proof (intro allI impI)
  fix w :: "'z proxy_scheme" assume w: "simulates P b0 w"
  let ?m = "(wm w)\<lparr>workers := AList.delete f (workers (wm w))\<rparr>"
  have v: "broker_view (w\<lparr>wm := ?m\<rparr>) =
      (broker_view w)\<lparr>miners := (miners (broker_view w))(f := None)\<rparr>"
    by (simp add: broker_view_def delete_conv' fun_eq_iff cong: if_cong)
  have "simulates P b0 (w\<lparr>wm := ?m\<rparr>)"
    by (rule simulates_wm [OF w]) (simp_all add: v broker_step.leave r_into_rtranclp)
  then show "simulates P b0 (snd (set_wm (\<lambda>m. m\<lparr>workers := AList.delete f (workers m)\<rparr>) w))"
    by simp
qed

lemma on_worker_state_refines: "invar (simulates P b0) (on_worker_state a s)"
  unfolding on_worker_state_def by (intro frame quiet_frames leave_refines)

lemma admit_refines:
  "invar (simulates P b0) (set_wm (\<lambda>m. m\<lparr>workers := AList.update f \<lparr>info_conn = c, worker_id = [],
     worker_subscribed = False, worker_authorized = False, extra_nonce2 = n\<rparr> (workers m)\<rparr>))"
  unfolding invar_def
proof (intro allI impI)
  fix w :: "'z proxy_scheme" assume w: "simulates P b0 w"
  let ?i = "\<lparr>info_conn = c, worker_id = [], worker_subscribed = False, worker_authorized = False,
    extra_nonce2 = n\<rparr>"
  let ?m = "(wm w)\<lparr>workers := AList.update f ?i (workers (wm w))\<rparr>"
  have v: "broker_view (w\<lparr>wm := ?m\<rparr>) = (broker_view w)\<lparr>miners := (miners (broker_view w))(f \<mapsto>
      \<lparr>miner_name = [], miner_listens = False, miner_enabled = False\<rparr>)\<rparr>"
    by (simp add: broker_view_def miner_view_def update_conv' fun_eq_iff cong: if_cong)
  have "simulates P b0 (w\<lparr>wm := ?m\<rparr>)"
    by (rule simulates_wm [OF w]) (simp_all add: v broker_step.admit r_into_rtranclp)
  then show "simulates P b0 (snd (set_wm (\<lambda>m. m\<lparr>workers := AList.update f ?i (workers m)\<rparr>) w))"
    by simp
qed

lemma nonce_refines: "invar (simulates P b0) take_extra_nonce2"
  unfolding invar_def
proof (intro allI impI)
  fix w :: "'z proxy_scheme" assume w: "simulates P b0 w"
  let ?m = "(wm w)\<lparr>next_extra_nonce2 := next_extra_nonce2 (wm w) + 1\<rparr>"
  have "broker_view (w\<lparr>wm := ?m\<rparr>) = broker_view w" by (simp add: broker_view_def cong: if_cong)
  then have "simulates P b0 (w\<lparr>wm := ?m\<rparr>)" by (intro simulates_wm [OF w]) simp_all
  then show "simulates P b0 (snd (take_extra_nonce2 w))" by (simp add: take_extra_nonce2_def)
qed

lemma accept_refines: "invar (simulates P b0) (accept_worker E)"
  unfolding accept_worker_def adopt_worker_def get_connection_def
  by (auto intro!: frame admit_refines nonce_refines send_current_refines quiet_frames split: prod.splits)

section \<open>The process refines the broker\<close>

lemma message_refines: "invar (simulates P b0) (on_message J E cb line)"
  by (cases cb) (auto intro: on_pool_message_refines on_worker_message_refines)

lemma state_refines: "invar (simulates P b0) (on_state E cb s)"
  by (cases cb) (auto intro: on_pool_state_refines on_worker_state_refines)

lemma timer_refines: "invar (simulates P b0) (fire_timer E t)"
  by (cases t)
    (auto intro!: frame accept_refines try_connect_refines simp: try_connect_pool_def simp del: mbind_get_pool)

text \<open>
  The contract of the event loop, for the invariant of the process together with the broker: what the
  loop does between the callbacks is no step of the broker.
\<close>

definition proxy_broker :: "(string \<Rightarrow> bool) \<Rightarrow> broker \<Rightarrow> 'z proxy_scheme \<Rightarrow> bool" where
  "proxy_broker P b0 w \<longleftrightarrow> proxy_inv (\<lambda>_ _. True) w \<and> simulates P b0 w"

lemma proxy_broker_refines:
  "invar (\<lambda>w. proxy_inv (\<lambda>_ _. True) w \<and> K w) m \<Longrightarrow> invar (simulates P b0) m \<Longrightarrow>
   invar (\<lambda>w. proxy_broker P b0 w \<and> K w) m"
  unfolding invar_def proxy_broker_def by blast

lemma broker_loop:
  assumes "environment E"
  shows "loop_handlers (proxy_broker P b0 :: 'z proxy_scheme \<Rightarrow> bool) (on_message J E) (on_state E) E (fire_timer E)"
proof -
  note sys = proxy_system_any [OF assms]
  have "local_invariant (proxy_broker P b0 :: 'z proxy_scheme \<Rightarrow> bool)"
    using proxy_system.inv_local [OF sys] simulates_local [of P b0]
    unfolding local_invariant_def proxy_broker_def by blast
  moreover have "line_receiver_axioms (proxy_broker P b0 :: 'z proxy_scheme \<Rightarrow> bool) (on_message J E)"
    by unfold_locales
      (intro proxy_broker_refines message_refines proxy_system.on_message_invar [OF sys])
  moreover have "event_handlers_axioms (proxy_broker P b0 :: 'z proxy_scheme \<Rightarrow> bool) (on_state E)"
    by unfold_locales
      (intro proxy_broker_refines state_refines proxy_system.on_state_invar [OF sys])
  moreover have "loop_handlers_axioms (proxy_broker P b0 :: 'z proxy_scheme \<Rightarrow> bool) E (fire_timer E)"
  proof (intro loop_handlers_axioms.intro)
    show "environment E" by (rule assms)
  next
    fix w :: "'z proxy_scheme" and f a past t rest now
    assume w: "proxy_broker P b0 w"
    then have inv: "proxy_inv (\<lambda>_ _. True) w" and s: "simulates P b0 w" by (simp_all add: proxy_broker_def)
    show "loop_wf w" by (rule proxy_system.inv_wf [OF sys inv])
    show "proxy_broker P b0 (w\<lparr>running := True\<rparr>)"
      using proxy_system.inv_running [OF sys inv] simulates_same [OF s] by (simp add: proxy_broker_def)
    show "proxy_broker P b0 (w\<lparr>timeouts := past @ rescheduled now t @ rest\<rparr>)"
      if "timeouts w = past @ t # rest"
      using proxy_system.inv_rescheduled [OF sys inv that] simulates_same [OF s]
      by (simp add: proxy_broker_def)
    show "proxy_broker P b0 (snd (erase_connection f a w))" if "map_of (connections w) f = Some a"
      using proxy_system.inv_erase [OF sys inv that] invarD [OF quiet_refines [OF loop_more(3)] s]
      by (simp add: proxy_broker_def prod_eq_iff)
  next
    fix x :: timer
    show "invar (proxy_broker P b0) (fire_timer E x :: ('z proxy_scheme, unit) M)"
      using proxy_system.fire_invar [OF sys, of x] timer_refines [of P b0 E x]
      unfolding invar_def proxy_broker_def by blast
    show "keeps timeouts (fire_timer E x :: ('z proxy_scheme, unit) M)"
      by (rule proxy_system.fire_timeouts [OF sys])
  qed
  ultimately show ?thesis
    by (intro loop_handlers.intro event_handlers.intro line_receiver.intro)
qed

interpretation calm_broker: loop_handlers "proxy_broker P b0" "on_message ref_json calm_env"
    "on_state calm_env" calm_env "fire_timer calm_env" for P b0
  by (rule broker_loop) (rule calm.environment_axioms)

text \<open>The simulation, for a round and for a run, whether they come to their end or fail inside.\<close>

lemma proxy_broker_start: "proxy_ok w \<Longrightarrow> proxy_broker (worker_passes (wm w)) (broker_view w) w"
  by (simp add: proxy_broker_def proxy_inv_def simulates_def)

lemma round_refines:
  assumes "environment E" and "proxy_broker P b0 w"
    and "run_round E (on_message J E) (on_state E) (fire_timer E) w = (r, w')"
  shows "proxy_broker P b0 w'"
  by (rule invarD [OF loop_handlers.round_invar [OF broker_loop [OF assms(1)]] assms(2,3)])

lemma run_refines:
  assumes "environment E" and "proxy_ok w" and "proxy_run fuel J E w = (r, w')"
  shows "broker_steps (worker_passes (wm w)) (broker_view w) (broker_view w')"
  using invarD [OF loop_handlers.run_invar [OF broker_loop [OF assms(1)]] proxy_broker_start [OF assms(2)]
    assms(3) [unfolded proxy_run_def]]
  by (simp add: proxy_broker_def simulates_def)

text \<open>The start: connecting and listening are no steps.\<close>

definition admitted :: "proxy_config \<Rightarrow> string \<Rightarrow> bool" where
  "admitted cfg x \<longleftrightarrow> worker_cfgs cfg = [] \<or> (\<exists>c \<in> set (worker_cfgs cfg). worker_cfg_id c = x)"

lemma initial_simulates: "simulates (admitted cfg) idle_broker (initial_world g cfg)"
proof -
  have "worker_passes (wm (initial_world g cfg)) = admitted cfg"
    by (auto simp: fun_eq_iff initial_world_def new_worker_manager_def worker_passes_def
        is_worker_allowed_def admitted_def list_ex_iff)
  moreover have "broker_view (initial_world g cfg) = idle_broker"
    by (simp add: initial_world_def new_worker_manager_def new_pool_manager_def broker_view_def idle_broker_def)
  ultimately show ?thesis by (simp add: simulates_def)
qed

lemma set_listen_refines: "invar (simulates P b0) (set_wm (\<lambda>m. m\<lparr>listen_fd := f\<rparr>))"
  unfolding invar_def
proof (intro allI impI)
  fix w :: "'z proxy_scheme" assume w: "simulates P b0 w"
  have "broker_view (w\<lparr>wm := (wm w)\<lparr>listen_fd := f\<rparr>\<rparr>) = broker_view w"
    by (simp add: broker_view_def cong: if_cong)
  then have "simulates P b0 (w\<lparr>wm := (wm w)\<lparr>listen_fd := f\<rparr>\<rparr>)" by (intro simulates_wm [OF w]) simp_all
  then show "simulates P b0 (snd (set_wm (\<lambda>m. m\<lparr>listen_fd := f\<rparr>) w))" by simp
qed

lemma start_refines: "invar (simulates P b0) (proxy_start E cfg)"
  unfolding proxy_start_def pool_start_def worker_start_def try_connect_pool_def
  by (intro frame print_line_refines set_listen_refines try_connect_refines quiet_frames
      quiet_net [OF keeps_more_prims(4)])

lemma reachable_refines:
  assumes "environment E" and "reachable J E cfg g w"
  shows "proxy_broker (admitted cfg) idle_broker w"
  using assms(2)
proof induction
  case (started w)
  from invarD [OF start_refines initial_simulates started] reachable_ok [OF assms(1) reachable.started [OF started]]
  show ?case by (simp add: proxy_broker_def proxy_inv_def)
next
  case (round w again w')
  from round_refines [OF assms(1) round.IH round.hyps(2)] show ?case .
qed

end
