(* ===== verification/Tls_Client.thy ===== *)
theory Tls_Client
  imports Network "HOL-Library.Signed_Division"
begin

text \<open>
  The blocking TLS client of \<open>src/gpu-proxy-cpp/src/ssl_utils.hpp\<close> and \<open>ssl_utils.cpp\<close>: class
  \<open>TLSConnection\<close>, one object and the world it lives in.

  OpenSSL's objects are handles: the lists \<open>ssls\<close> and \<open>ctxs\<close> hold those the program still has to
  free, and a handle that is not in its list is undefined behaviour to use or free.  \<open>fd_flags\<close> are the
  status flags of the descriptors that \<open>fcntl\<close> reads and sets.  \<open>received\<close> records what \<open>SSL_read\<close>
  delivered, in order; no operation reads it.
\<close>

unbundle bit_operations_syntax

section \<open>The client and its world\<close>

record tls_client =
  tls_host :: string
  tls_port :: "16 word"
  socket_fd :: int
  tls_ssl :: "nat option"
  tls_ctx :: "nat option"
  tls_connected :: bool

record tls_world = net +
  self :: tls_client
  ssls :: "nat list"
  ctxs :: "nat list"
  fd_flags :: "int \<Rightarrow> 32 word"
  received :: "string list"

definition new_client :: "string \<Rightarrow> 16 word \<Rightarrow> tls_client" where
  "new_client host port = \<lparr>tls_host = host, tls_port = port, socket_fd = -1, tls_ssl = None,
     tls_ctx = None, tls_connected = False\<rparr>"

definition set_self :: "(tls_client \<Rightarrow> tls_client) \<Rightarrow> (tls_world, unit) M" where
  "set_self f = mmodify (\<lambda>w. w\<lparr>self := f (self w)\<rparr>)"

definition fresh_handle :: "(tls_world, nat) M" where
  "fresh_handle = (\<lambda>w. (Inr (next_addr w), w\<lparr>next_addr := Suc (next_addr w)\<rparr>))"

definition o_nonblock :: "32 word" where
  "o_nonblock = 0x800"

definition set_flags :: "int \<Rightarrow> 32 word \<Rightarrow> (tls_world, unit) M" where
  "set_flags f v = mmodify (\<lambda>w. w\<lparr>fd_flags := (fd_flags w)(f := v)\<rparr>)"

section \<open>OpenSSL's objects\<close>

definition ctx_created :: "env \<Rightarrow> (tls_world, nat option) M" where
  "ctx_created E =
     mbind (ask (\<lambda>n. ssl_ctx_new E n)) (\<lambda>ok.
     if \<not> ok then mret None
     else mbind fresh_handle (\<lambda>p. mthen (mmodify (\<lambda>w. w\<lparr>ctxs := p # ctxs w\<rparr>)) (mret (Some p))))"

definition ssl_created :: "env \<Rightarrow> (tls_world, nat option) M" where
  "ssl_created E =
     mbind (ask (\<lambda>n. ssl_new E n)) (\<lambda>ok.
     if \<not> ok then mret None
     else mbind fresh_handle (\<lambda>p. mthen (mmodify (\<lambda>w. w\<lparr>ssls := p # ssls w\<rparr>)) (mret (Some p))))"

definition ctx_free :: "nat \<Rightarrow> (tls_world, unit) M" where
  "ctx_free p = (\<lambda>w. if p \<in> set (ctxs w) then (Inr (), w\<lparr>ctxs := removeAll p (ctxs w)\<rparr>) else (Inl Undefined, w))"

definition ssl_free :: "nat \<Rightarrow> (tls_world, unit) M" where
  "ssl_free p = (\<lambda>w. if p \<in> set (ssls w) then (Inr (), w\<lparr>ssls := removeAll p (ssls w)\<rparr>) else (Inl Undefined, w))"

text \<open>The pointer \<open>ssl_\<close> where it is handed to OpenSSL.\<close>

definition live_ssl :: "(tls_world, nat) M" where
  "live_ssl = (\<lambda>w. case tls_ssl (self w) of
     None \<Rightarrow> (Inl Undefined, w)
   | Some s \<Rightarrow> if s \<in> set (ssls w) then (Inr s, w) else (Inl Undefined, w))"

section \<open>Connecting\<close>

definition create_client_context :: "env \<Rightarrow> (tls_world, bool) M" where
  "create_client_context E =
     mbind (ctx_created E) (\<lambda>p.
     mthen (set_self (\<lambda>c. c\<lparr>tls_ctx := p\<rparr>))
     (case p of
        None \<Rightarrow> mret False
      | Some c \<Rightarrow>
          mbind (ask (\<lambda>n. ssl_ctx_set_cipher_list E n ''DEFAULT:@SECLEVEL=0'')) (\<lambda>r.
          if r \<le> 0 then mthen (ctx_free c) (mthen (set_self (\<lambda>c. c\<lparr>tls_ctx := None\<rparr>)) (mret False))
          else mret True)))"

definition perform_ssl_handshake :: "env \<Rightarrow> (tls_world, bool) M" where
  "perform_ssl_handshake E =
     mbind (ssl_created E) (\<lambda>p.
     mthen (set_self (\<lambda>c. c\<lparr>tls_ssl := p\<rparr>))
     (case p of
        None \<Rightarrow> mret False
      | Some s \<Rightarrow>
          mbind (mget (\<lambda>w. socket_fd (self w))) (\<lambda>f.
          mbind (ask (\<lambda>n. ssl_set_fd E n f)) (\<lambda>r.
          if r = 0 then mthen (ssl_free s) (mthen (set_self (\<lambda>c. c\<lparr>tls_ssl := None\<rparr>)) (mret False))
          else mbind (ask (\<lambda>n. ssl_connect E n s)) (\<lambda>(ret, err).
               if ret \<noteq> 1
               then mthen (ssl_free s) (mthen (set_self (\<lambda>c. c\<lparr>tls_ssl := None\<rparr>)) (mret False))
               else mret True)))))"

text \<open>\<open>::close(socket_fd_); socket_fd_ = -1; return false\<close>.\<close>

definition abandon_socket :: "int \<Rightarrow> (tls_world, bool) M" where
  "abandon_socket f = mthen (close_fd f) (mthen (set_self (\<lambda>c. c\<lparr>socket_fd := -1\<rparr>)) (mret False))"

text \<open>From \<open>create_ssl_context\<close> on, with the socket connected.\<close>

definition tls_start :: "env \<Rightarrow> int \<Rightarrow> (tls_world, bool) M" where
  "tls_start E f =
     mbind (create_client_context E) (\<lambda>ok.
     if \<not> ok then abandon_socket f
     else mbind (perform_ssl_handshake E) (\<lambda>ok.
          if \<not> ok
          then mbind (mget (\<lambda>w. tls_ctx (self w))) (\<lambda>p.
               mthen (case p of None \<Rightarrow> mret () | Some c \<Rightarrow> ctx_free c)
               (mthen (set_self (\<lambda>c. c\<lparr>tls_ctx := None\<rparr>)) (abandon_socket f)))
          else mthen (set_self (\<lambda>c. c\<lparr>tls_connected := True\<rparr>)) (mret True)))"

definition tls_connect :: "env \<Rightarrow> (tls_world, bool) M" where
  "tls_connect E =
     mbind (mget open_fds) (\<lambda>S.
     mbind (ask (\<lambda>n. sys_socket E n S)) (\<lambda>f.
     mthen (set_self (\<lambda>c. c\<lparr>socket_fd := f\<rparr>))
     (if f < 0 then mret False
      else
        mthen (register_fd f)
        (mbind (mget (\<lambda>w. fd_flags w f)) (\<lambda>flags.
         mthen (set_flags f (flags AND NOT o_nonblock))
         (mbind (mget self) (\<lambda>c.
          mbind (ask (\<lambda>n. sys_getaddrinfo E n (tls_host c))) (\<lambda>r.
          if r \<noteq> 0 then abandon_socket f
          else mbind (ask (\<lambda>n. sys_connect E n f (tls_port c))) (\<lambda>(r, err).
               if r < 0 then abandon_socket f else tls_start E f)))))))))"

definition tls_disconnect :: "(tls_world, unit) M" where
  "tls_disconnect =
     mbind (mget self) (\<lambda>c.
     mthen (case tls_ssl c of
              None \<Rightarrow> mret ()
            | Some s \<Rightarrow> mthen (emit (Tls_shutdown (socket_fd c)))
                        (mthen (ssl_free s) (set_self (\<lambda>c. c\<lparr>tls_ssl := None\<rparr>))))
     (mthen (case tls_ctx c of
              None \<Rightarrow> mret ()
            | Some p \<Rightarrow> mthen (ctx_free p) (set_self (\<lambda>c. c\<lparr>tls_ctx := None\<rparr>)))
     (mthen (mwhen (socket_fd c \<ge> 0)
              (mthen (close_fd (socket_fd c)) (set_self (\<lambda>c. c\<lparr>socket_fd := -1\<rparr>))))
     (set_self (\<lambda>c. c\<lparr>tls_connected := False\<rparr>)))))"

section \<open>Sending and receiving\<close>

text \<open>Conversion to \<open>int\<close>, as of \<open>full_line.length()\<close> and of the milliseconds for \<open>poll\<close>.\<close>

definition to_c_int :: "int \<Rightarrow> int" where
  "to_c_int k = signed_take_bit 31 k"

definition tls_send_line :: "env \<Rightarrow> string \<Rightarrow> (tls_world, bool) M" where
  "tls_send_line E line =
     mbind (mget self) (\<lambda>c.
     if \<not> tls_connected c then mret False
     else
       let full_line = line @ [newline]; n = to_c_int (int (length full_line)) in
       mbind live_ssl (\<lambda>s.
       mbind (ask (\<lambda>t. ssl_write E t s (take (nat n) full_line))) (\<lambda>(sent, err).
       mthen (mwhen (sent > 0) (emit (Sent (socket_fd c) (take (nat sent) full_line))))
             (mret (sent = n)))))"

definition steady_ns :: "env \<Rightarrow> nat \<Rightarrow> int" where
  "steady_ns E n = (case sys_clock E n of (sec, nsec) \<Rightarrow> sint sec * 1000000000 + sint nsec)"

text \<open>\<open>result += buf\<close> appends the bytes before the first NUL.\<close>

definition c_string :: "string \<Rightarrow> string" where
  "c_string s = takeWhile (\<lambda>c. c \<noteq> CHR 0x00) s"

text \<open>One \<open>SSL_read\<close> of at most \<open>sizeof(buf) - 1\<close> bytes.\<close>

definition ssl_receive :: "env \<Rightarrow> nat \<Rightarrow> (tls_world, string \<times> ssl_error) M" where
  "ssl_receive E s =
     mbind (ask (\<lambda>n. ssl_read E n s 1023)) (\<lambda>(bs, err).
     mthen (mwhen (bs \<noteq> []) (mmodify (\<lambda>w. w\<lparr>received := received w @ [bs]\<rparr>))) (mret (bs, err)))"

text \<open>The result after a delivery, and whether the loop goes on.\<close>

definition take_chunk :: "string \<Rightarrow> string \<Rightarrow> string \<times> bool" where
  "take_chunk result bs = (let r = result @ c_string bs in (r, find_char newline r = None))"

definition poll_and_read :: "env \<Rightarrow> int \<Rightarrow> nat \<Rightarrow> string \<Rightarrow> (tls_world, string \<times> bool) M" where
  "poll_and_read E deadline s result =
     mbind (ask (steady_ns E)) (\<lambda>now.
     let remaining = (deadline - now) sdiv 1000000 in
     if remaining \<le> 0 then mret (result, False)
     else
       mbind (mget (\<lambda>w. socket_fd (self w))) (\<lambda>f.
       mbind (ask (\<lambda>n. sys_poll E n [(f, POLLIN)] (to_c_int remaining))) (\<lambda>(poll_ret, err, revents).
       if poll_ret < 0 then mret (result, False)
       else if poll_ret = 0 then mret (result, True)
       else mbind (ssl_receive E s) (\<lambda>(bs, err).
            if bs = [] then mret (result, err = Ssl_want_read \<or> err = Ssl_want_write)
            else mret (take_chunk result bs)))))"

definition recv_step :: "env \<Rightarrow> int \<Rightarrow> string \<Rightarrow> (tls_world, string \<times> bool) M" where
  "recv_step E deadline result =
     mbind live_ssl (\<lambda>s.
     mbind (ask (\<lambda>n. ssl_pending E n s)) (\<lambda>p.
     mbind (if p > 0 then ssl_receive E s else mret ([], Ssl_other 0)) (\<lambda>(bs, err).
     if bs \<noteq> [] then mret (take_chunk result bs)
     else poll_and_read E deadline s result)))"

fun recv_loop :: "nat \<Rightarrow> env \<Rightarrow> int \<Rightarrow> string \<Rightarrow> (tls_world, string) M" where
  "recv_loop 0 E deadline result = mfail Out_of_fuel"
| "recv_loop (Suc fuel) E deadline result =
     mbind (ask (steady_ns E)) (\<lambda>now.
     if \<not> now < deadline then mret result
     else mbind (recv_step E deadline result) (\<lambda>(r, again).
          if again then recv_loop fuel E deadline r else mret r))"

definition recv_line :: "nat \<Rightarrow> env \<Rightarrow> int \<Rightarrow> (tls_world, string) M" where
  "recv_line fuel E timeout_sec =
     mbind (mget self) (\<lambda>c.
     if \<not> tls_connected c then mret []
     else
       mbind (mget (\<lambda>w. fd_flags w (socket_fd c))) (\<lambda>flags.
       mthen (set_flags (socket_fd c) (flags OR o_nonblock))
       (mbind (ask (steady_ns E)) (\<lambda>start.
        mbind (recv_loop fuel E (start + timeout_sec * 1000000000) []) (\<lambda>result.
        mthen (set_flags (socket_fd c) flags)
        (mret (case find_char newline result of None \<Rightarrow> result | Some n \<Rightarrow> take n result)))))))"

section \<open>What a client owns\<close>

text \<open>
  Handles are numbers below the next one.  An idle client owns nothing; an established one owns one
  descriptor, one \<open>SSL\<close> and one \<open>SSL_CTX\<close> on top of what was there before.
\<close>

type_synonym holdings = "int list \<times> nat list \<times> nat list"

definition owned :: "tls_world \<Rightarrow> holdings" where
  "owned w = (open_fds w, ssls w, ctxs w)"

definition handles_ok :: "tls_world \<Rightarrow> bool" where
  "handles_ok w \<longleftrightarrow> (\<forall>p \<in> set (ssls w) \<union> set (ctxs w). p < next_addr w)"

definition tls_idle :: "tls_world \<Rightarrow> bool" where
  "tls_idle w \<longleftrightarrow> handles_ok w \<and> socket_fd (self w) < 0 \<and> tls_ssl (self w) = None \<and>
     tls_ctx (self w) = None \<and> \<not> tls_connected (self w)"

definition tls_up :: "holdings \<Rightarrow> tls_world \<Rightarrow> bool" where
  "tls_up r w \<longleftrightarrow> handles_ok w \<and> tls_connected (self w) \<and>
     (\<exists>s c D S T. r = (D, S, T) \<and> 0 \<le> socket_fd (self w) \<and> tls_ssl (self w) = Some s \<and> tls_ctx (self w) = Some c \<and>
        open_fds w = socket_fd (self w) # D \<and> ssls w = s # S \<and> ctxs w = c # T \<and>
        socket_fd (self w) \<notin> set D \<and> s \<notin> set S \<and> c \<notin> set T)"

lemma filter_fresh [simp]: "(f :: int) \<notin> set D \<Longrightarrow> filter (\<lambda>g. g \<noteq> f) D = D"
  by (auto intro: filter_True)

lemma set_self_apply [simp]: "set_self f w = (Inr (), w\<lparr>self := f (self w)\<rparr>)"
  by (simp add: set_self_def)

lemma set_flags_apply [simp]: "set_flags f v w = (Inr (), w\<lparr>fd_flags := (fd_flags w)(f := v)\<rparr>)"
  by (simp add: set_flags_def)

lemma close_fd_apply [simp]:
  "close_fd f w = (Inr (), w\<lparr>open_fds := filter (\<lambda>g. g \<noteq> f) (open_fds w), effects := effects w @ [Closed f]\<rparr>)"
  by (simp add: close_fd_def)

lemma ctx_free_apply [simp]:
  "p \<in> set (ctxs w) \<Longrightarrow> ctx_free p w = (Inr (), w\<lparr>ctxs := removeAll p (ctxs w)\<rparr>)"
  by (simp add: ctx_free_def)

lemma ssl_free_apply [simp]:
  "p \<in> set (ssls w) \<Longrightarrow> ssl_free p w = (Inr (), w\<lparr>ssls := removeAll p (ssls w)\<rparr>)"
  by (simp add: ssl_free_def)

lemma abandon_socket_apply [simp]:
  "abandon_socket f w = (Inr False, w\<lparr>open_fds := filter (\<lambda>g. g \<noteq> f) (open_fds w),
     effects := effects w @ [Closed f], self := (self w)\<lparr>socket_fd := -1\<rparr>\<rparr>)"
  by (simp add: abandon_socket_def)

lemma ctx_created_apply:
  "ctx_created E w =
    (if ssl_ctx_new E (ticks w)
     then (Inr (Some (next_addr w)), w\<lparr>ticks := Suc (ticks w), next_addr := Suc (next_addr w), ctxs := next_addr w # ctxs w\<rparr>)
     else (Inr None, w\<lparr>ticks := Suc (ticks w)\<rparr>))"
  by (simp add: ctx_created_def fresh_handle_def mbind_def mthen_def)

lemma ssl_created_apply:
  "ssl_created E w =
    (if ssl_new E (ticks w)
     then (Inr (Some (next_addr w)), w\<lparr>ticks := Suc (ticks w), next_addr := Suc (next_addr w), ssls := next_addr w # ssls w\<rparr>)
     else (Inr None, w\<lparr>ticks := Suc (ticks w)\<rparr>))"
  by (simp add: ssl_created_def fresh_handle_def mbind_def mthen_def)

lemma create_client_context_result:
  assumes "handles_ok w"
  obtains (ok) c w' where "create_client_context E w = (Inr True, w')" "handles_ok w'" "open_fds w' = open_fds w"
      "ssls w' = ssls w" "ctxs w' = c # ctxs w" "c \<notin> set (ctxs w)" "self w' = (self w)\<lparr>tls_ctx := Some c\<rparr>"
  | (fail) w' where "create_client_context E w = (Inr False, w')" "handles_ok w'" "owned w' = owned w"
      "self w' = (self w)\<lparr>tls_ctx := None\<rparr>"
proof -
  have n: "next_addr w \<notin> set (ctxs w)" using assms by (auto simp: handles_ok_def)
  note d = create_client_context_def ctx_created_apply handles_ok_def owned_def
  show thesis
  proof (cases "ssl_ctx_new E (ticks w)")
    case False
    with assms fail [of "w\<lparr>ticks := Suc (ticks w), self := (self w)\<lparr>tls_ctx := None\<rparr>\<rparr>"] show thesis
      by (simp add: d)
  next
    case new: True
    let ?w = "w\<lparr>ticks := Suc (Suc (ticks w)), next_addr := Suc (next_addr w), ctxs := next_addr w # ctxs w,
      self := (self w)\<lparr>tls_ctx := Some (next_addr w)\<rparr>\<rparr>"
    show thesis
    proof (cases "ssl_ctx_set_cipher_list E (Suc (ticks w)) ''DEFAULT:@SECLEVEL=0'' \<le> 0")
      case True
      with assms new n fail [of "?w\<lparr>ctxs := ctxs w, self := (self w)\<lparr>tls_ctx := None\<rparr>\<rparr>"] show thesis
        by (simp add: d less_Suc_eq)
    next
      case False
      with assms new n ok [of ?w "next_addr w"] show thesis by (simp add: d less_Suc_eq)
    qed
  qed
qed

lemma perform_ssl_handshake_result:
  assumes "handles_ok w"
  obtains (ok) s w' where "perform_ssl_handshake E w = (Inr True, w')" "handles_ok w'" "open_fds w' = open_fds w"
      "ctxs w' = ctxs w" "ssls w' = s # ssls w" "s \<notin> set (ssls w)" "self w' = (self w)\<lparr>tls_ssl := Some s\<rparr>"
  | (fail) w' where "perform_ssl_handshake E w = (Inr False, w')" "handles_ok w'" "owned w' = owned w"
      "self w' = (self w)\<lparr>tls_ssl := None\<rparr>"
proof -
  have n: "next_addr w \<notin> set (ssls w)" using assms by (auto simp: handles_ok_def)
  note d = perform_ssl_handshake_def ssl_created_apply handles_ok_def owned_def
  let ?f = "socket_fd (self w)"
  let ?t = "ticks w"
  show thesis
  proof (cases "ssl_new E ?t")
    case False
    with assms fail [of "w\<lparr>ticks := Suc ?t, self := (self w)\<lparr>tls_ssl := None\<rparr>\<rparr>"] show thesis
      by (simp add: d)
  next
    case new: True
    let ?w = "w\<lparr>ticks := Suc (Suc ?t), next_addr := Suc (next_addr w), ssls := next_addr w # ssls w,
      self := (self w)\<lparr>tls_ssl := Some (next_addr w)\<rparr>\<rparr>"
    show thesis
    proof (cases "ssl_set_fd E (Suc ?t) ?f = 0")
      case True
      with assms new n fail [of "?w\<lparr>ssls := ssls w, self := (self w)\<lparr>tls_ssl := None\<rparr>\<rparr>"] show thesis
        by (simp add: d less_Suc_eq)
    next
      case attached: False
      obtain ret err where a: "ssl_connect E (Suc (Suc ?t)) (next_addr w) = (ret, err)" by fastforce
      show thesis
      proof (cases "ret = 1")
        case True
        with assms new n a attached ok [of "?w\<lparr>ticks := Suc (Suc (Suc ?t))\<rparr>" "next_addr w"] show thesis
          by (simp add: d less_Suc_eq)
      next
        case False
        with assms new n a attached
          fail [of "?w\<lparr>ticks := Suc (Suc (Suc ?t)), ssls := ssls w, self := (self w)\<lparr>tls_ssl := None\<rparr>\<rparr>"]
        show thesis by (simp add: d less_Suc_eq)
      qed
    qed
  qed
qed

definition same_peer :: "tls_world \<Rightarrow> tls_world \<Rightarrow> bool" where
  "same_peer w w' \<longleftrightarrow> tls_host (self w') = tls_host (self w) \<and> tls_port (self w') = tls_port (self w)"

text \<open>How \<open>connect\<close> ends: with everything, or with nothing.\<close>

definition connect_outcome :: "holdings \<Rightarrow> tls_world \<Rightarrow> bool \<Rightarrow> tls_world \<Rightarrow> bool" where
  "connect_outcome r w b w' \<longleftrightarrow> same_peer w w' \<and> (if b then tls_up r w' else tls_idle w' \<and> owned w' = r)"

lemma tls_start_result:
  assumes "handles_ok w" and "open_fds w = f # D" and "f \<notin> set D" and "0 \<le> f" and "socket_fd (self w) = f"
    and "tls_ssl (self w) = None" and "tls_ctx (self w) = None" and "\<not> tls_connected (self w)"
  shows "\<exists>b w'. tls_start E f w = (Inr b, w') \<and> connect_outcome (D, ssls w, ctxs w) w b w'"
  using assms(1)
proof (cases rule: create_client_context_result [of w E])
  case (fail u)
  with assms show ?thesis
    by (intro exI [of _ False] exI [of _ "u\<lparr>open_fds := filter (\<lambda>g. g \<noteq> f) (open_fds u),
       effects := effects u @ [Closed f], self := (self u)\<lparr>socket_fd := -1\<rparr>\<rparr>"])
      (simp add: tls_start_def owned_def handles_ok_def connect_outcome_def same_peer_def tls_idle_def)
next
  case (ok c u)
  note ctx = this
  show ?thesis
    using ok(2)
  proof (cases rule: perform_ssl_handshake_result [of u E])
    case (fail v)
    with ctx assms show ?thesis
      by (intro exI [of _ False] exI [of _ "v\<lparr>ctxs := ctxs w, open_fds := filter (\<lambda>g. g \<noteq> f) (open_fds v),
         effects := effects v @ [Closed f], self := (self v)\<lparr>tls_ctx := None, socket_fd := -1\<rparr>\<rparr>"])
        (simp add: tls_start_def owned_def handles_ok_def mthen_def connect_outcome_def same_peer_def tls_idle_def)
  next
    case (ok s v)
    with ctx assms show ?thesis
      by (intro exI [of _ True] exI [of _ "v\<lparr>self := (self v)\<lparr>tls_connected := True\<rparr>\<rparr>"])
        (simp add: tls_start_def tls_up_def handles_ok_def mthen_def connect_outcome_def same_peer_def)
  qed
qed

lemma tls_connect_result:
  assumes "environment E" and "tls_idle w"
  shows "\<exists>b w'. tls_connect E w = (Inr b, w') \<and> connect_outcome (owned w) w b w'"
proof -
  let ?t = "ticks w"
  let ?f = "sys_socket E ?t (open_fds w)"
  let ?h = "tls_host (self w)" and ?p = "tls_port (self w)"
  note i = assms(2) [unfolded tls_idle_def handles_ok_def]
  note out = connect_outcome_def same_peer_def owned_def tls_idle_def handles_ok_def
  show ?thesis
  proof (cases "?f < 0")
    case True
    with i show ?thesis
      by (intro exI [of _ False] exI [of _ "w\<lparr>ticks := Suc ?t, self := (self w)\<lparr>socket_fd := ?f\<rparr>\<rparr>"])
        (simp add: tls_connect_def out)
  next
    case False
    then have fresh: "?f \<notin> set (open_fds w)" "0 \<le> ?f" using environment.socket_fresh [OF assms(1)] by simp_all
    let ?w = "w\<lparr>ticks := Suc (Suc ?t), self := (self w)\<lparr>socket_fd := ?f\<rparr>, open_fds := ?f # open_fds w,
      fd_flags := (fd_flags w)(?f := fd_flags w ?f AND NOT o_nonblock)\<rparr>"
    let ?gone = "\<lambda>w. w\<lparr>open_fds := filter (\<lambda>g. g \<noteq> ?f) (open_fds w),
       effects := effects w @ [Closed ?f], self := (self w)\<lparr>socket_fd := -1\<rparr>\<rparr>"
    obtain r err where c: "sys_connect E (Suc (Suc ?t)) ?f ?p = (r, err)" by fastforce
    consider "sys_getaddrinfo E (Suc ?t) ?h \<noteq> 0" | "sys_getaddrinfo E (Suc ?t) ?h = 0" "r < 0"
      | (up) "sys_getaddrinfo E (Suc ?t) ?h = 0" "\<not> r < 0" by blast
    then show ?thesis
    proof cases
      case 1
      with i False fresh show ?thesis
        by (intro exI [of _ False] exI [of _ "?gone ?w"])
          (simp add: tls_connect_def register_fd_def mthen_def out)
    next
      case 2
      with i False fresh c show ?thesis
        by (intro exI [of _ False] exI [of _ "?gone (?w\<lparr>ticks := Suc (Suc (Suc ?t))\<rparr>)"])
          (simp add: tls_connect_def register_fd_def mthen_def out)
    next
      case up
      let ?v = "?w\<lparr>ticks := Suc (Suc (Suc ?t))\<rparr>"
      have "tls_connect E w = tls_start E ?f ?v"
        using i False fresh c up by (simp add: tls_connect_def register_fd_def mthen_def)
      moreover have "\<exists>b w'. tls_start E ?f ?v = (Inr b, w') \<and> connect_outcome (open_fds w, ssls ?v, ctxs ?v) ?v b w'"
        using i fresh by (intro tls_start_result) (simp_all add: handles_ok_def)
      ultimately show ?thesis by (simp add: owned_def connect_outcome_def same_peer_def)
    qed
  qed
qed

lemma tls_disconnect_up:
  assumes "tls_up r w"
  shows "\<exists>w'. tls_disconnect w = (Inr (), w') \<and> tls_idle w' \<and> owned w' = r \<and>
    effects w' = effects w @ [Tls_shutdown (socket_fd (self w)), Closed (socket_fd (self w))]"
proof -
  from assms obtain s c D S T where u: "handles_ok w" "tls_connected (self w)" "r = (D, S, T)" "0 \<le> socket_fd (self w)"
    "tls_ssl (self w) = Some s" "tls_ctx (self w) = Some c" "open_fds w = socket_fd (self w) # D" "ssls w = s # S"
    "ctxs w = c # T" "socket_fd (self w) \<notin> set D" "s \<notin> set S" "c \<notin> set T"
    by (auto simp: tls_up_def)
  then show ?thesis
    by (simp add: tls_disconnect_def mthen_def mbind_assoc tls_idle_def owned_def handles_ok_def)
qed

lemma tls_disconnect_idle: "tls_idle w \<Longrightarrow> \<exists>w'. tls_disconnect w = (Inr (), w') \<and> tls_idle w' \<and> owned w' = owned w"
  by (simp add: tls_disconnect_def mthen_def tls_idle_def owned_def handles_ok_def)

section \<open>What sending and receiving leave alone\<close>

definition tls_frame :: "tls_world \<Rightarrow> tls_client \<times> holdings \<times> nat" where
  "tls_frame w = (self w, owned w, next_addr w)"

lemma tls_up_frame: "tls_frame v = tls_frame w \<Longrightarrow> tls_up r v = tls_up r w"
  by (simp add: tls_frame_def tls_up_def handles_ok_def owned_def)

lemma tls_frame_prims [frame]:
  "keeps tls_frame (ask g)" "keeps tls_frame (emit e)" "keeps tls_frame live_ssl" "keeps tls_frame (set_flags f v)"
  by (auto simp: keeps_def tls_frame_def owned_def live_ssl_def split: option.splits)

lemma tls_frame_receive [frame]: "keeps tls_frame (ssl_receive E s)"
  unfolding ssl_receive_def
  by (intro frame) (auto intro!: frame simp: tls_frame_def owned_def split: prod.splits)

lemma tls_frame_poll [frame]: "keeps tls_frame (poll_and_read E d s r)"
  unfolding poll_and_read_def Let_def by (auto intro!: frame split: prod.splits)

lemma tls_frame_step [frame]: "keeps tls_frame (recv_step E d r)"
  unfolding recv_step_def by (auto intro!: frame split: prod.splits)

lemma tls_frame_loop [frame]: "keeps tls_frame (recv_loop fuel E d r)"
proof (induction fuel arbitrary: r)
  case (Suc n)
  show ?case
    unfolding recv_loop.simps by (intro frame) (auto intro!: frame Suc.IH split: prod.splits)
qed (simp add: frame)

lemma tls_frame_recv [frame]: "keeps tls_frame (recv_line fuel E secs)"
  unfolding recv_line_def by (auto intro!: frame)

lemma tls_frame_send [frame]: "keeps tls_frame (tls_send_line E line)"
  unfolding tls_send_line_def Let_def by (auto intro!: frame split: prod.splits)

lemma live_ssl_up: "tls_up r w \<Longrightarrow> \<exists>s. live_ssl w = (Inr s, w) \<and> tls_ssl (self w) = Some s"
  by (auto simp: tls_up_def live_ssl_def)

lemma ssl_receive_apply:
  "ssl_read E (ticks w) s 1023 = (bs, err) \<Longrightarrow>
   ssl_receive E s w = (Inr (bs, err), w\<lparr>ticks := Suc (ticks w), received := received w @ (if bs = [] then [] else [bs])\<rparr>)"
  by (simp add: ssl_receive_def mthen_def mwhen_def)

text \<open>One turn of the loop, in a connected client: what it appends is what it took from \<open>SSL_read\<close>.\<close>

definition stepped :: "tls_world \<Rightarrow> string \<Rightarrow> string \<Rightarrow> bool \<Rightarrow> tls_world \<Rightarrow> bool" where
  "stepped w result r again w' \<longleftrightarrow> tls_frame w' = tls_frame w \<and> fd_flags w' = fd_flags w \<and> ticks w < ticks w' \<and>
     (\<exists>bs. received w' = received w @ bs \<and> r = result @ concat (map c_string bs) \<and> length bs \<le> 1 \<and>
       (again \<longrightarrow> newline \<notin> set result \<longrightarrow> newline \<notin> set r))"

lemma take_chunk_stepped:
  assumes "tls_frame w' = tls_frame w" and "fd_flags w' = fd_flags w" and "ticks w < ticks w'"
    and "received w' = received w @ [bs]" and "take_chunk result bs = (r, again)"
  shows "stepped w result r again w'"
  using assms by (auto simp: stepped_def take_chunk_def Let_def)

lemma poll_and_read_stepped:
  "\<exists>r again w'. poll_and_read E d s result w = (Inr (r, again), w') \<and> stepped w result r again w'"
proof -
  let ?t = "ticks w"
  let ?rem = "(d - steady_ns E ?t) sdiv 1000000"
  obtain p e ev where p: "sys_poll E (Suc ?t) [(socket_fd (self w), POLLIN)] (to_c_int ?rem) = (p, e, ev)"
    by (metis surj_pair)
  obtain bs err where b: "ssl_read E (Suc (Suc ?t)) s 1023 = (bs, err)" by fastforce
  have idle: "stepped w result result again w'" if "tls_frame w' = tls_frame w" "fd_flags w' = fd_flags w"
      "ticks w < ticks w'" "received w' = received w" for again w'
    using that by (simp add: stepped_def)
  note f = tls_frame_def owned_def
  let ?u = "w\<lparr>ticks := Suc (Suc ?t)\<rparr>"
  let ?v = "w\<lparr>ticks := Suc (Suc (Suc ?t)), received := received w @ []\<rparr>"
  note d = poll_and_read_def Let_def ssl_receive_apply mbind_def
  consider "?rem \<le> 0" | "0 < ?rem" "p < 0" | "0 < ?rem" "p = 0" | "0 < ?rem" "0 < p" "bs = []"
    | (bytes) "0 < ?rem" "0 < p" "bs \<noteq> []"
    by linarith
  then show ?thesis
  proof cases
    case bytes
    obtain r again where c: "take_chunk result bs = (r, again)" by fastforce
    let ?w = "w\<lparr>ticks := Suc (Suc (Suc ?t)), received := received w @ [bs]\<rparr>"
    have "stepped w result r again ?w" by (rule take_chunk_stepped [OF _ _ _ _ c]) (simp_all add: f)
    with bytes p b c show ?thesis
      by (intro exI [of _ r] exI [of _ again] exI [of _ ?w])
        (simp add: poll_and_read_def Let_def ssl_receive_apply)
  next
    case 1
    then show ?thesis
      by (intro exI [of _ result] exI [of _ False] exI [of _ "w\<lparr>ticks := Suc ?t\<rparr>"]) (simp add: d idle f)
  next
    case 2
    with p show ?thesis
      by (intro exI [of _ result] exI [of _ False] exI [of _ ?u]) (simp add: d idle f)
  next
    case 3
    with p show ?thesis
      by (intro exI [of _ result] exI [of _ True] exI [of _ ?u]) (simp add: d idle f)
  next
    case 4
    with p b show ?thesis
      by (intro exI [of _ result] exI [of _ "err = Ssl_want_read \<or> err = Ssl_want_write"] exI [of _ ?v])
        (simp add: d idle f)
  qed
qed

lemma recv_step_stepped:
  assumes "tls_up q w"
  shows "\<exists>r again w'. recv_step E d result w = (Inr (r, again), w') \<and> stepped w result r again w'"
proof -
  obtain s where s: "live_ssl w = (Inr s, w)" using live_ssl_up [OF assms] by blast
  obtain bs err where b: "ssl_read E (Suc (ticks w)) s 1023 = (bs, err)" by fastforce
  note f = tls_frame_def owned_def
  show ?thesis
  proof (cases "0 < ssl_pending E (ticks w) s \<and> bs \<noteq> []")
    case True
    obtain r again where c: "take_chunk result bs = (r, again)" by fastforce
    let ?w = "w\<lparr>ticks := Suc (Suc (ticks w)), received := received w @ [bs]\<rparr>"
    have "stepped w result r again ?w" by (rule take_chunk_stepped [OF _ _ _ _ c]) (simp_all add: f)
    with True s b c show ?thesis
      by (intro exI [of _ r] exI [of _ again] exI [of _ ?w]) (simp add: recv_step_def ssl_receive_apply)
  next
    case False
    then obtain n where n: "recv_step E d result w = poll_and_read E d s result (w\<lparr>ticks := n\<rparr>)" "ticks w < n"
      using s b by (cases "0 < ssl_pending E (ticks w) s") (auto simp: recv_step_def ssl_receive_apply)
    obtain r again w' where "poll_and_read E d s result (w\<lparr>ticks := n\<rparr>) = (Inr (r, again), w')"
      "stepped (w\<lparr>ticks := n\<rparr>) result r again w'"
      using poll_and_read_stepped by blast
    with n show ?thesis by (auto simp: stepped_def f)
  qed
qed

section \<open>The loop of \<open>recv_line\<close>\<close>

lemma stepped_up: "tls_up q w \<Longrightarrow> stepped w result r again w' \<Longrightarrow> tls_up q w'"
  using tls_up_frame [of w' w q] by (simp add: stepped_def)

lemma recv_loop_collects:
  assumes "tls_up q w" and "newline \<notin> set result" and "recv_loop fuel E d result w = (Inr line, w')"
  shows "\<exists>chunks. received w' = received w @ chunks \<and> line = result @ concat (map c_string chunks) \<and>
    newline \<notin> set (concat (map c_string (butlast chunks))) \<and> fd_flags w' = fd_flags w"
  using assms
proof (induction fuel arbitrary: w result)
  case (Suc n)
  let ?w = "w\<lparr>ticks := Suc (ticks w)\<rparr>"
  show ?case
  proof (cases "steady_ns E (ticks w) < d")
    case True
    have "tls_up q ?w" using Suc.prems(1) tls_up_frame [of ?w w q] by (simp add: tls_frame_def owned_def)
    then obtain r again v where s: "recv_step E d result ?w = (Inr (r, again), v)" "stepped ?w result r again v"
      and v: "tls_up q v"
      using recv_step_stepped [of q ?w E d result] stepped_up by metis
    from s(2) obtain bs where bs: "received v = received w @ bs" "r = result @ concat (map c_string bs)"
      "length bs \<le> 1" "again \<longrightarrow> newline \<notin> set r" "fd_flags v = fd_flags w"
      using Suc.prems(2) by (auto simp: stepped_def)
    show ?thesis
    proof (cases again)
      case True
      with Suc.prems s \<open>steady_ns E (ticks w) < d\<close> have "recv_loop n E d r v = (Inr line, w')" by simp
      moreover have "newline \<notin> set r" using bs(4) True by simp
      ultimately obtain cs where cs: "received w' = received v @ cs"
        "line = r @ concat (map c_string cs)" "newline \<notin> set (concat (map c_string (butlast cs)))"
        "fd_flags w' = fd_flags v" using Suc.IH [OF v] by blast
      have "set (butlast (bs @ cs)) \<subseteq> set bs \<union> set (butlast cs)"
        by (auto simp: butlast_append dest: in_set_butlastD)
      then have "newline \<notin> set (concat (map c_string (butlast (bs @ cs))))"
        using bs(2,4) cs(3) True by auto
      with cs bs show ?thesis by (intro exI [of _ "bs @ cs"]) simp
    next
      case False
      then have "line = r" "w' = v" using Suc.prems s \<open>steady_ns E (ticks w) < d\<close> by simp_all
      moreover have "butlast bs = []" using bs(3) by (cases bs) auto
      ultimately show ?thesis using bs by (intro exI [of _ bs]) simp
    qed
  qed (use Suc.prems in \<open>auto intro!: exI [of _ "[]"]\<close>)
qed simp

lemma recv_loop_returns:
  assumes "tls_up q w" and "\<And>n. m \<le> n \<Longrightarrow> d \<le> steady_ns E n" and "m < ticks w + fuel" and "0 < fuel"
  shows "\<exists>line w'. recv_loop fuel E d result w = (Inr line, w')"
  using assms(1,3,4)
proof (induction fuel arbitrary: w result)
  case (Suc n)
  let ?w = "w\<lparr>ticks := Suc (ticks w)\<rparr>"
  show ?case
  proof (cases "steady_ns E (ticks w) < d")
    case True
    then have "ticks w < m" using assms(2) [of "ticks w"] by (meson not_less)
    have "tls_up q ?w" using Suc.prems(1) tls_up_frame [of ?w w q] by (simp add: tls_frame_def owned_def)
    then obtain r again v where s: "recv_step E d result ?w = (Inr (r, again), v)" "stepped ?w result r again v"
      and v: "tls_up q v"
      using recv_step_stepped [of q ?w E d result] stepped_up by metis
    have "ticks w < ticks v" using s(2) by (simp add: stepped_def)
    with Suc.prems \<open>ticks w < m\<close> have "m < ticks v + n" "0 < n" by simp_all
    from Suc.IH [OF v this] s(1) True show ?thesis by (cases again) auto
  qed simp
qed simp

lemma first_line: "(case find_char x s of None \<Rightarrow> s | Some n \<Rightarrow> take n s) = takeWhile (\<lambda>c. c \<noteq> x) s"
  by (induction s) (auto split: option.splits)

lemma recv_line_up:
  assumes "tls_up q w"
  shows "recv_line fuel E secs w =
    mbind (recv_loop fuel E (steady_ns E (ticks w) + secs * 1000000000) [])
      (\<lambda>result. mthen (set_flags (socket_fd (self w)) (fd_flags w (socket_fd (self w))))
        (mret (takeWhile (\<lambda>c. c \<noteq> newline) result)))
      (w\<lparr>fd_flags := (fd_flags w)(socket_fd (self w) := fd_flags w (socket_fd (self w)) OR o_nonblock),
         ticks := Suc (ticks w)\<rparr>)"
  using assms by (simp add: recv_line_def tls_up_def first_line mthen_def)

section \<open>Sessions\<close>

text \<open>
  The life of a \<open>TLSConnection\<close> in a scope: it connects, is used if that succeeded, and is destroyed at
  the end.  The laws a resource needs for such sessions to leave nothing behind.
\<close>

locale session =
  fixes opens :: "('w, bool) M" and closes :: "('w, unit) M" and uses :: "'u \<Rightarrow> ('w, unit) M"
    and idle :: "'w \<Rightarrow> bool" and up :: "'r \<Rightarrow> 'w \<Rightarrow> bool" and owns :: "'w \<Rightarrow> 'r" and F :: "failure set"
  assumes opens_result: "idle w \<Longrightarrow>
      \<exists>b w'. opens w = (Inr b, w') \<and> (if b then up (owns w) w' else idle w' \<and> owns w' = owns w)"
    and uses_up: "invar (up r) (uses u)"
    and uses_safe: "safe_under (up r) F (uses u)"
    and closes_up: "up r w \<Longrightarrow> \<exists>w'. closes w = (Inr (), w') \<and> idle w' \<and> owns w' = r"
    and closes_idle: "idle w \<Longrightarrow> \<exists>w'. closes w = (Inr (), w') \<and> idle w' \<and> owns w' = owns w"
begin

lemma session_balanced:
  assumes "idle w" and "mbind opens (\<lambda>b. mthen (mwhen b (mfor us uses)) closes) w = (r, w')"
  shows "case r of Inl e \<Rightarrow> e \<in> F | Inr _ \<Rightarrow> idle w' \<and> owns w' = owns w"
proof -
  obtain b v where v: "opens w = (Inr b, v)" "if b then up (owns w) v else idle v \<and> owns v = owns w"
    using opens_result [OF assms(1)] by blast
  show ?thesis
  proof (cases b)
    case True
    obtain x u where u: "mfor us uses v = (x, u)" by fastforce
    have up: "up (owns w) u"
      using v(2) True invarD [OF invar_mfor [of us "up (owns w)" uses] _ u] uses_up by simp
    have "safe_under (up (owns w)) F (mfor us uses)"
      by (intro under uses_safe uses_up)
    with u v(2) True have "e \<in> F" if "x = Inl e" for e
      using that by (auto dest: safe_underD)
    with closes_up [OF up] u v True assms(2) show ?thesis by (cases x) auto
  next
    case False
    with closes_idle [of v] v assms(2) show ?thesis by auto
  qed
qed

lemma sessions_balanced:
  assumes "idle w" and "mfor uss (\<lambda>us. mbind opens (\<lambda>b. mthen (mwhen b (mfor us uses)) closes)) w = (r, w')"
  shows "case r of Inl e \<Rightarrow> e \<in> F | Inr _ \<Rightarrow> idle w' \<and> owns w' = owns w"
  using assms
proof (induction uss arbitrary: w)
  case (Cons us uss)
  obtain x v where v: "mbind opens (\<lambda>b. mthen (mwhen b (mfor us uses)) closes) w = (x, v)" by fastforce
  note s = session_balanced [OF Cons.prems(1) v]
  show ?case
  proof (cases x)
    case (Inl e)
    with s v Cons.prems(2) show ?thesis by auto
  next
    case (Inr y)
    with v Cons.prems(2) have r: "mfor uss (\<lambda>us. mbind opens (\<lambda>b. mthen (mwhen b (mfor us uses)) closes)) v = (r, w')"
      by simp
    from s Inr have "idle v" "owns v = owns w" by simp_all
    with Cons.IH [OF _ r] show ?thesis by (auto split: sum.splits)
  qed
qed auto

end

text \<open>The calls a user makes on a connected client.\<close>

datatype tls_call = Send string | Receive int

definition tls_call :: "nat \<Rightarrow> env \<Rightarrow> tls_call \<Rightarrow> (tls_world, unit) M" where
  "tls_call fuel E k = (case k of
     Send line \<Rightarrow> mbind (tls_send_line E line) (\<lambda>_. mret ())
   | Receive secs \<Rightarrow> mbind (recv_line fuel E secs) (\<lambda>_. mret ()))"

definition tls_session :: "nat \<Rightarrow> env \<Rightarrow> tls_call list \<Rightarrow> (tls_world, unit) M" where
  "tls_session fuel E calls =
     mbind (tls_connect E) (\<lambda>ok. mthen (mwhen ok (mfor calls (tls_call fuel E))) tls_disconnect)"

lemma frame_up: "keeps tls_frame m \<Longrightarrow> invar (tls_up q) m"
  using tls_up_frame unfolding invar_def keeps_def by blast

lemma recv_loop_safe:
  "safe_under (tls_up q) {Out_of_fuel} (recv_loop fuel E d result)"
proof (induction fuel arbitrary: result)
  case (Suc n)
  have "invar (tls_up q) (ask g)" "invar (tls_up q) (recv_step E d s)" for g :: "nat \<Rightarrow> int" and s
    by (intro frame_up frame)+
  moreover have "safe_under (tls_up q) {Out_of_fuel} (recv_step E d s)" for s
  proof (unfold safe_under_def, intro allI impI)
    fix w e w'
    assume "tls_up q w" and "recv_step E d s w = (Inl e, w')"
    with recv_step_stepped [of q w E d s] show "e \<in> {Out_of_fuel}" by auto
  qed
  ultimately show ?case
    unfolding recv_loop.simps
    by (intro under under_only_fails [OF only_fails_ask]) (auto intro!: under Suc.IH under_only_fails safe split: prod.splits)
qed (simp add: under_only_fails safe)

lemma tls_call_up: "invar (tls_up q) (tls_call fuel E k)"
proof -
  have "keeps tls_frame (tls_call fuel E k)"
    unfolding tls_call_def by (cases k) (auto intro!: frame)
  then show ?thesis by (rule frame_up)
qed

lemma tls_call_safe: "safe_under (tls_up q) {Out_of_fuel} (tls_call fuel E k)"
proof (cases k)
  case (Send line)
  have "\<exists>b w'. tls_send_line E line w = (Inr b, w')" if "tls_up q w" for w
    using live_ssl_up [OF that] that
    by (auto simp: tls_send_line_def tls_up_def Let_def mbind_def mthen_def mwhen_def split: prod.splits)
  with Send show ?thesis by (fastforce simp: safe_under_def tls_call_def)
next
  case (Receive secs)
  have "e = Out_of_fuel" if "tls_up q w" "recv_line fuel E secs w = (Inl e, w')" for w w' e
  proof -
    let ?w = "w\<lparr>fd_flags := (fd_flags w)(socket_fd (self w) := fd_flags w (socket_fd (self w)) OR o_nonblock),
         ticks := Suc (ticks w)\<rparr>"
    let ?l = "recv_loop fuel E (steady_ns E (ticks w) + secs * 1000000000) []"
    have "tls_up q ?w" using that(1) tls_up_frame [of ?w w q] by (simp add: tls_frame_def owned_def)
    moreover obtain x v where x: "?l ?w = (x, v)" by fastforce
    moreover have "x = Inl e" using that x recv_line_up [OF that(1)] by (cases x) (auto simp: mthen_def)
    ultimately show ?thesis using safe_underD [OF recv_loop_safe] by blast
  qed
  then have "safe_under (tls_up q) {Out_of_fuel} (recv_line fuel E secs)"
    by (simp add: safe_under_def)
  then have "safe_under (tls_up q) {Out_of_fuel} (mbind (recv_line fuel E secs) (\<lambda>_. mret ()))"
    by (intro under_mbind under_only_fails [OF only_fails_mret] frame_up tls_frame_recv)
  with Receive show ?thesis by (simp add: tls_call_def)
qed

lemma tls_session_any:
  assumes "environment E"
  shows "session (tls_connect E) tls_disconnect (tls_call fuel E) tls_idle tls_up owned {Out_of_fuel}"
proof unfold_locales
  show "\<exists>b w'. tls_connect E w = (Inr b, w') \<and> (if b then tls_up (owned w) w' else tls_idle w' \<and> owned w' = owned w)"
    if "tls_idle w" for w
    using tls_connect_result [OF assms that] unfolding connect_outcome_def by blast
qed (use tls_call_up tls_call_safe tls_disconnect_up tls_disconnect_idle in blast)+

interpretation calm_session: session "tls_connect calm_env" tls_disconnect "tls_call fuel calm_env" tls_idle tls_up
    owned "{Out_of_fuel}" for fuel
  by (rule tls_session_any) (rule calm.environment_axioms)

section \<open>The properties of the client\<close>

text \<open>A client on an otherwise empty world, and an environment that delivers one line and a half.\<close>

definition demo_tls :: tls_world where
  "demo_tls = \<lparr>heap = (\<lambda>_. None), next_addr = 0, open_fds = [2, 1, 0], ticks = 0, effects = [],
     self = new_client ''pool.example'' 443, ssls = [], ctxs = [], fd_flags = (\<lambda>_. 2), received = []\<rparr>"

definition chatty_env :: env where
  "chatty_env = calm_env\<lparr>sys_clock := (\<lambda>n. (if n < 20 then 0 else 100, 0)), ssl_pending := (\<lambda>n s. 1),
     ssl_read := (\<lambda>n s k. (if n < 12 then ''ab'' else [CHR ''c'', newline, CHR ''d''], Ssl_other 0))\<rparr>"

text \<open>What it takes to run the client on closed inputs.\<close>

lemmas run_tls = tls_connect_def tls_start_def create_client_context_def ctx_created_apply perform_ssl_handshake_def
  ssl_created_apply chatty_env_def calm_env_def demo_tls_def new_client_def register_fd_def fresh_fd_def mthen_def
  mbind_assoc recv_line_def steady_ns_def numeral_2_eq_2 recv_step_def live_ssl_def ssl_receive_def take_chunk_def
  Let_def c_string_def tls_disconnect_def owned_def ctx_free_def ssl_free_def

lemma demo_tls_fields [simp]:
  "open_fds demo_tls = [2, 1, 0]" "ssls demo_tls = []" "ctxs demo_tls = []"
  by (simp_all add: demo_tls_def)

lemma demo_tls_idle: "tls_idle demo_tls"
  by (simp add: tls_idle_def handles_ok_def demo_tls_def new_client_def)

lemma chatty_environment: "environment chatty_env"
  by (rule environment_cong [OF calm.environment_axioms]) (simp_all add: chatty_env_def)

lemma demo_tls_connects:
  "map_prod id ticks (tls_connect chatty_env demo_tls) = (Inr True, 8)"
  by (simp add: run_tls)

lemma demo_tls_up:
  obtains w where "tls_connect chatty_env demo_tls = (Inr True, w)" "tls_up ([2, 1, 0], [], []) w" "ticks w = 8"
proof -
  obtain b w where w: "tls_connect chatty_env demo_tls = (Inr b, w)" "connect_outcome (owned demo_tls) demo_tls b w"
    using tls_connect_result [OF chatty_environment demo_tls_idle] by blast
  then have "b" "ticks w = 8" using demo_tls_connects by simp_all
  with w that show thesis by (simp add: connect_outcome_def owned_def demo_tls_def)
qed

text \<open>Property C37: \<open>connect\<close> of an idle client either succeeds and owns exactly one new descriptor, one
  new \<open>SSL\<close> and one new \<open>SSL_CTX\<close>, or fails and owns nothing, with everything it had acquired released:
  no error path leaks.\<close>

theorem connect_all_or_nothing:
  assumes "environment E" and "tls_idle w"
  shows "\<exists>b w'. tls_connect E w = (Inr b, w') \<and>
    tls_host (self w') = tls_host (self w) \<and> tls_port (self w') = tls_port (self w) \<and>
    (if b then \<exists>f s c. self w' = (self w)\<lparr>socket_fd := f, tls_ssl := Some s, tls_ctx := Some c, tls_connected := True\<rparr> \<and>
         0 \<le> f \<and> f \<notin> set (open_fds w) \<and> open_fds w' = f # open_fds w \<and>
         s \<notin> set (ssls w) \<and> ssls w' = s # ssls w \<and> c \<notin> set (ctxs w) \<and> ctxs w' = c # ctxs w
     else tls_idle w' \<and> open_fds w' = open_fds w \<and> ssls w' = ssls w \<and> ctxs w' = ctxs w)"
proof -
  obtain b w' where w': "tls_connect E w = (Inr b, w')" "connect_outcome (owned w) w b w'"
    using tls_connect_result [OF assms] by blast
  show ?thesis
  proof (cases b)
    case True
    with w'(2) show ?thesis
      using w'(1) by (cases "self w'"; cases "self w") (auto simp: connect_outcome_def same_peer_def tls_up_def owned_def)
  next
    case False
    with w' show ?thesis by (auto simp: connect_outcome_def same_peer_def owned_def)
  qed
qed

theorem connect_all_or_nothing_witness:
  "\<exists>w'. tls_connect (calm_env\<lparr>ssl_connect := \<lambda>n s. (0, Ssl_other 1)\<rparr>) demo_tls = (Inr False, w') \<and>
    tls_idle w' \<and> open_fds w' = [2, 1, 0] \<and> ssls w' = [] \<and> ctxs w' = []"
proof -
  let ?E = "calm_env\<lparr>ssl_connect := \<lambda>n s. (0, Ssl_other 1)\<rparr>"
  have "environment ?E" by (rule environment_cong [OF calm.environment_axioms]) simp_all
  moreover have "fst (tls_connect ?E demo_tls) = Inr False" by (simp add: run_tls)
  ultimately show ?thesis
    using connect_all_or_nothing [OF _ demo_tls_idle, of ?E] by (auto simp: demo_tls_def)
qed

text \<open>Property C38: sessions are balanced.  However many sessions run one after the other, with whatever
  calls in them, the client is idle afterwards and the open descriptors and OpenSSL objects are those
  from before; the only way not to get there is a \<open>recv_line\<close> that is given too few turns.\<close>

theorem sessions_leave_nothing:
  assumes "environment E" and "tls_idle w"
  shows "case mfor sessions (tls_session fuel E) w of
      (Inl e, w') \<Rightarrow> e = Out_of_fuel
    | (Inr _, w') \<Rightarrow> tls_idle w' \<and> open_fds w' = open_fds w \<and> ssls w' = ssls w \<and> ctxs w' = ctxs w"
proof -
  obtain r w' where r: "mfor sessions (tls_session fuel E) w = (r, w')" by fastforce
  have "tls_session fuel E = (\<lambda>us. mbind (tls_connect E) (\<lambda>b. mthen (mwhen b (mfor us (tls_call fuel E))) tls_disconnect))"
    by (simp add: fun_eq_iff tls_session_def)
  with session.sessions_balanced [OF tls_session_any [OF assms(1)] assms(2), of sessions fuel r w'] r
  show ?thesis by (auto simp: owned_def split: sum.splits)
qed

theorem sessions_leave_nothing_witness:
  "case mfor [[Send ''hi'', Receive 5], [Receive 5]] (tls_session 30 chatty_env) demo_tls of
      (Inl e, w') \<Rightarrow> e = Out_of_fuel
    | (Inr _, w') \<Rightarrow> tls_idle w' \<and> open_fds w' = [2, 1, 0] \<and> ssls w' = [] \<and> ctxs w' = []"
  using sessions_leave_nothing [OF chatty_environment demo_tls_idle, of "[[Send ''hi'', Receive 5], [Receive 5]]" 30]
  unfolding demo_tls_fields .

text \<open>Property C39: what \<open>recv_line\<close> returns.  The deliveries of \<open>SSL_read\<close> are cut at their first NUL and
  joined; the result is what comes before the first newline.  It stops at the first delivery with a
  newline, so what follows the newline in that delivery is lost, as is everything after a NUL.  The
  flags of the socket and what the client owns are afterwards as they were.\<close>

theorem recv_line_spec:
  assumes "tls_up q w" and "recv_line fuel E secs w = (Inr line, w')"
  shows "tls_up q w' \<and> fd_flags w' = fd_flags w \<and> (\<exists>chunks. received w' = received w @ chunks \<and>
    line = takeWhile (\<lambda>c. c \<noteq> newline) (concat (map c_string chunks)) \<and>
    newline \<notin> set (concat (map c_string (butlast chunks))))"
proof -
  let ?f = "socket_fd (self w)"
  let ?w = "w\<lparr>fd_flags := (fd_flags w)(?f := fd_flags w ?f OR o_nonblock), ticks := Suc (ticks w)\<rparr>"
  let ?l = "recv_loop fuel E (steady_ns E (ticks w) + secs * 1000000000) []"
  have u: "tls_up q ?w" using assms(1) tls_up_frame [of ?w w q] by (simp add: tls_frame_def owned_def)
  obtain x v where v: "?l ?w = (x, v)" by fastforce
  from assms(2) v obtain s where s: "x = Inr s" "line = takeWhile (\<lambda>c. c \<noteq> newline) s"
    "w' = v\<lparr>fd_flags := (fd_flags v)(?f := fd_flags w ?f)\<rparr>"
    unfolding recv_line_up [OF assms(1)] by (cases x) auto
  from recv_loop_collects [OF u _ v [unfolded s(1)]] obtain chunks where "received v = received w @ chunks"
    "s = concat (map c_string chunks)" "newline \<notin> set (concat (map c_string (butlast chunks)))" "fd_flags v = fd_flags ?w"
    by auto
  moreover have "tls_up q w'" by (rule invarD [OF frame_up [OF tls_frame_recv] assms])
  ultimately show ?thesis using s by (auto simp: fun_upd_idem)
qed

theorem recv_line_spec_witness:
  "\<exists>w w'. tls_connect chatty_env demo_tls = (Inr True, w) \<and> recv_line 2 chatty_env 5 w = (Inr ''abc'', w') \<and>
    received w' = [''ab'', [CHR ''c'', newline, CHR ''d'']] \<and> fd_flags w' = fd_flags w \<and>
    tls_up ([2, 1, 0], [], []) w'"
proof -
  have r: "map_prod id received (recv_line 2 chatty_env 5 (snd (tls_connect chatty_env demo_tls))) =
      (Inr ''abc'', [''ab'', [CHR ''c'', newline, CHR ''d'']])"
    by (simp add: run_tls)
  obtain w where w: "tls_connect chatty_env demo_tls = (Inr True, w)" "tls_up ([2, 1, 0], [], []) w"
    by (rule demo_tls_up)
  with r obtain w' where "recv_line 2 chatty_env 5 w = (Inr ''abc'', w')"
    "received w' = [''ab'', [CHR ''c'', newline, CHR ''d'']]"
    by (cases "recv_line 2 chatty_env 5 w") simp
  with recv_line_spec [OF w(2) this(1)] w show ?thesis by blast
qed

text \<open>Property C40: \<open>recv_line\<close> returns: if the clock has passed the deadline from the \<open>m\<close>-th question to
  the environment on, \<open>m\<close> turns of its loop are enough, whatever the socket and OpenSSL answer.\<close>

theorem recv_line_returns:
  assumes "tls_up q w" and "\<forall>n \<ge> m. steady_ns E (ticks w) + secs * 1000000000 \<le> steady_ns E n"
    and "m \<le> ticks w + fuel" and "0 < fuel"
  shows "\<exists>line w'. recv_line fuel E secs w = (Inr line, w') \<and> newline \<notin> set line"
proof -
  let ?f = "socket_fd (self w)"
  let ?w = "w\<lparr>fd_flags := (fd_flags w)(?f := fd_flags w ?f OR o_nonblock), ticks := Suc (ticks w)\<rparr>"
  have "tls_up q ?w" using assms(1) tls_up_frame [of ?w w q] by (simp add: tls_frame_def owned_def)
  then obtain s v where "recv_loop fuel E (steady_ns E (ticks w) + secs * 1000000000) [] ?w = (Inr s, v)"
    using recv_loop_returns [of q ?w m "steady_ns E (ticks w) + secs * 1000000000" E fuel "[]"] assms(2-4) by auto
  then show ?thesis
    unfolding recv_line_up [OF assms(1)] by (auto dest: set_takeWhileD)
qed

theorem recv_line_returns_witness:
  "\<exists>w line w'. tls_connect chatty_env demo_tls = (Inr True, w) \<and> recv_line 12 chatty_env 5 w = (Inr line, w') \<and>
    newline \<notin> set line"
proof -
  obtain w where w: "tls_connect chatty_env demo_tls = (Inr True, w)" "tls_up ([2, 1, 0], [], []) w" "ticks w = 8"
    by (rule demo_tls_up)
  have "\<forall>n \<ge> 20. steady_ns chatty_env (ticks w) + 5 * 1000000000 \<le> steady_ns chatty_env n"
    using w(3) by (simp add: steady_ns_def chatty_env_def)
  from recv_line_returns [OF w(2) this, of 12] w(1,3) show ?thesis by auto
qed

text \<open>
  Connecting an established client again forgets the descriptor and the objects of the first
  connection: after \<open>disconnect\<close> they are still there.
\<close>

lemma reconnect_leaks:
  "map_prod id owned (tls_disconnect (snd (tls_connect calm_env (snd (tls_connect calm_env demo_tls))))) =
    (Inr (), ([3, 2, 1, 0], [1], [0]))"
  by (simp add: run_tls)

text \<open>A line below two gigabytes is reported as sent exactly if OpenSSL took all of it.\<close>

lemma tls_send_line_result:
  assumes "tls_up q w" and "Suc (length line) < 2 ^ 31"
  shows "\<exists>s sent err. tls_ssl (self w) = Some s \<and> ssl_write E (ticks w) s (line @ [newline]) = (sent, err) \<and>
    fst (tls_send_line E line w) = Inr (sent = int (Suc (length line)))"
proof -
  obtain s where s: "live_ssl w = (Inr s, w)" "tls_ssl (self w) = Some s" using live_ssl_up [OF assms(1)] by blast
  have "to_c_int (int (length (line @ [newline]))) = int (Suc (length line))"
    using assms(2) by (simp add: to_c_int_def signed_take_bit_int_eq_self)
  moreover obtain sent err where "ssl_write E (ticks w) s (line @ [newline]) = (sent, err)" by fastforce
  ultimately show ?thesis
    using s assms(1) by (cases "sent > 0") (simp_all add: tls_send_line_def Let_def tls_up_def nat_add_distrib)
qed

end
