(* ===== verification/Spec2Isabelle.thy ===== *)
theory Spec2Isabelle
  imports Broker Tls_Client
begin

text \<open>
  The GPU mining proxy of \<open>src/gpu-proxy-cpp\<close>, and what makes it correct.

  \<^bold>\<open>The program.\<close>  A single-threaded process connects to one of several mining pools over TLS, accepts
  mining workers on a TCP port, hands the pool's jobs to them and their shares to the pool, all as JSON
  lines of the Stratum protocol.  An event loop polls every connection; the connections call back into
  the pool manager and the worker manager, which \<open>GPUProxy\<close> wires to each other.

  \<^bold>\<open>The theories\<close>, in the order they build on each other:

  \<^item> \<open>Prelude\<close>: functions over a state that may fail; frames, invariants and escaping failures, with the
    rule collections \<open>frame\<close>, \<open>safe\<close> and \<open>under\<close>; decimal and hexadecimal printing; association lists.
  \<^item> \<open>Json_Interface\<close>, \<open>Json_Reference\<close>: \<open>nlohmann::json\<close> is not in the repository.  It is the parameter
    \<open>json_lib\<close> with the laws of the locale \<open>json_library\<close>; \<open>ref_json\<close> is an executable instance, which
    proves the laws and runs the witnesses.
  \<^item> \<open>Stratum\<close> (\<open>stratum.hpp\<close>, \<open>stratum.cpp\<close>): \<open>StratumRequest::parse\<close>, \<open>StratumResponse::to_json\<close>,
    \<open>Job::from_notify\<close>.  \<open>Config\<close> (\<open>config.hpp\<close>, \<open>config.cpp\<close>): \<open>ConfigLoader\<close>, \<open>parse_host_port\<close>.
  \<^item> \<open>Network\<close>: the operating system and OpenSSL as the parameter \<open>env\<close>, a function of the number of
    questions asked so far, with the few promises of POSIX in the locale \<open>environment\<close>; the record
    \<open>net\<close> with the heap of \<open>Connection\<close> objects, the open descriptors and the effects seen outside.
  \<^item> \<open>Connection\<close> (\<open>connection.hpp\<close>, \<open>connection.cpp\<close>): constructor, destructor and moves, TLS set-up and
    handshake, \<open>send_line\<close>, \<open>read_data\<close>, the line buffer, \<open>connect_to_pool\<close>.
  \<^item> \<open>Event_Loop\<close> (\<open>event_loop.hpp\<close>, \<open>event_loop.cpp\<close>): the record \<open>loop\<close> extends \<open>net\<close> by the table of
    connections, the timers and the flag; polling, dispatch, clean-up, timers, \<open>run\<close>.
  \<^item> \<open>Pool_Manager\<close> (\<open>pool_manager.hpp\<close>, \<open>pool_manager.cpp\<close>) and \<open>Worker_Manager\<close> (\<open>worker_manager.hpp\<close>,
    \<open>worker_manager.cpp\<close>): the records \<open>pool_manager\<close> and \<open>worker_manager\<close> hold the members of the
    classes; one definition per member function, named after it.
  \<^item> \<open>Proxy\<close> (\<open>main.cpp\<close>): the record \<open>proxy\<close> is the whole process.  A stored \<open>std::function\<close> is a value
    of type \<open>closure\<close> or \<open>timer\<close>; \<open>on_message\<close>, \<open>on_state\<close> and \<open>fire_timer\<close> run them.  Start-up, the
    command line, \<open>main\<close> and the signal handler.
  \<^item> \<open>System\<close>: paths through the wired process.  \<open>Broker\<close>: the abstract broker, its laws, and the proof that
    the process refines it.  \<open>Tls_Client\<close> (\<open>ssl_utils.hpp\<close>, \<open>ssl_utils.cpp\<close>): the
    blocking \<open>TLSConnection\<close>, which is compiled into the program and used by none of its parts.

  Objects are shared by pointer in the code, so a pointer is a heap address here: a connection the loop
  has destroyed is an address without an object, and using it is the failure \<open>Undefined\<close>, as are the
  other undefined behaviours of C++ the code can run into.  Uninitialised variables have the contents of
  an argument of type \<open>garbage\<close>.  C++ exceptions are failures that keep the state reached so far, and
  \<open>mcatch\<close> is \<open>catch (const std::exception&)\<close>.

  \<^bold>\<open>How the parts meet.\<close>  A locale states what one part relies on in another: \<open>local_invariant\<close> (what an
  invariant must tolerate so that operations of a connection keep it), \<open>line_receiver\<close>,
  \<open>event_handlers\<close> and \<open>loop_handlers\<close> (what callbacks must keep so that reading, events and timers do),
  \<open>quiet_handlers\<close>, \<open>safe_handlers\<close> and \<open>prompt_handlers\<close> (what they may fail with), \<open>pool_owner\<close> and
  \<open>worker_owner\<close> (what the owner of a manager must let it do to the world), \<open>session\<close> (a resource that
  is opened, used and closed).  \<open>proxy_system\<close> gives all of those the process needs, and
  \<open>proxy_system_any\<close> shows that the program is an instance in every environment.

  \<^bold>\<open>What is shown.\<close>  The invariant \<open>proxy_ok\<close> (the table of connections is the heap; every open
  descriptor has one owner; callbacks belong to their manager; ids of shares are fresh; authorised workers are on the whitelist or doomed) holds in
  every reachable state (C1 to C3); no exception leaves \<open>main\<close> and nothing is left open when it returns
  (C4, C5); the process refines the abstract broker of \<open>Broker\<close>, whose record \<open>broker\<close> the function
  \<open>broker_view\<close> reads off the two managers and whose relation \<open>broker_step\<close> has one guarded rule for
  each thing that can happen (C6), and so keeps its promises over time (C7); input is cut into lines
  exactly (C8); rounds end (C9), the loop never does (C10); a job and a share each go the whole way
  through the program (C12, C13); what the loss of a connection does (C11, C14); exit codes (C15).
  Then, per component: pool (C16 to C23), workers (C24 to C27), loop (C28 to C30), connections (C31,
  C32), messages (C33, C34), configuration (C35, C36), the TLS client (C37 to C40).  Several of these
  state what the code does although it is not what it means to do, such as C10, C11, C14, C19 and C20.

  \<^bold>\<open>Loops.\<close>  \<open>process_read_buffer\<close> gets one turn more than there are buffered bytes, and every turn
  removes at least one, so it never runs out (part of C9).  \<open>run_rounds\<close> takes a bound on the rounds of
  the event loop, which has none in the code; C10 holds for every bound.  \<open>recv_loop\<close> takes a bound on its
  turns; C40 says how many are enough.  All other loops of the code are recursion on a list.

  \<^bold>\<open>Not modelled.\<close>  Diagnostics on the standard error stream, and the table \<open>printed\<close> and the line
  \<open>send_job\<close> builds and never sends, which serve nothing else; the certificate, cipher and
  protocol settings of OpenSSL beyond those that can fail; memory exhaustion.  The signal handler runs
  between rounds, not inside them.  The other parts of the repository are not C++ programs: NixOS
  modules, Kubernetes and container descriptions, dashboards, a QML widget and a shell script; the
  \<open>main.cpp\<close> at the top of \<open>gpu-proxy-cpp\<close> is a placeholder that is not built.
\<close>

section \<open>A start\<close>

definition demo_config :: proxy_config where
  "demo_config = \<lparr>listen_port = 3334, api_port = 8083, log_level = ''INFO'',
     pools = [pool_named ''a'', pool_named ''b''],
     worker_cfgs = [\<lparr>worker_cfg_id = ''rig'', worker_cfg_password = ''x''\<rparr>]\<rparr>"

definition demo_start :: proxy where
  "demo_start = snd (proxy_start calm_env demo_config (initial_world no_garbage demo_config))"

lemma demo_start_runs:
  "fst (proxy_start calm_env demo_config (initial_world no_garbage demo_config)) = Inr True \<and>
   0 \<le> listen_fd (wm demo_start)"
  by code_simp

lemma demo_started: "proxy_start calm_env demo_config (initial_world no_garbage demo_config) = (Inr True, demo_start)"
  using demo_start_runs unfolding demo_start_def by (metis prod.collapse)

lemma demo_reachable: "reachable ref_json calm_env demo_config no_garbage demo_start"
  by (rule reachable.started) (rule demo_started)

definition login_text :: string where
  "login_text = ''{\"id\":1,\"method\":\"login\",\"params\":{\"login\":\"rig\"}}'' @ [newline]"

definition busy_env :: env where
  "busy_env = calm_env\<lparr>
     sys_poll := \<lambda>n pfds t. (int (length pfds), Eother 0, map (\<lambda>p. and (snd p) POLLIN) pfds),
     sys_read := \<lambda>n f k. Read_bytes login_text\<rparr>"

lemma busy_environment: "environment busy_env"
  by (rule environment_cong [OF calm.environment_axioms]) (simp_all add: busy_env_def)

definition busy_round :: "(proxy, bool) M" where
  "busy_round = run_round busy_env (on_message ref_json busy_env) (on_state busy_env) (fire_timer busy_env)"

text \<open>Two rounds after the start: a worker is accepted, and its login is read.\<close>

definition busy_steps :: "(proxy, bool \<times> (int \<times> bool) list) M" where
  "busy_steps =
     mbind (proxy_start busy_env demo_config) (\<lambda>ok.
     mthen busy_round (mthen busy_round (mget (\<lambda>w. (ok \<and> require_whitelist (wm w),
       map (\<lambda>p. (fst p, worker_authorized (snd p))) (workers (wm w)))))))"

lemma busy_steps_run:
  "fst (busy_steps (initial_world no_garbage demo_config)) = Inr (True, [(5, True), (6, False)])"
  by code_simp

lemma busy_world:
  obtains w i where "reachable ref_json busy_env demo_config no_garbage w" "require_whitelist (wm w)"
    "map_of (workers (wm w)) 5 = Some i" "worker_authorized i"
proof -
  obtain u where "busy_steps (initial_world no_garbage demo_config) = (Inr (True, [(5, True), (6, False)]), u)"
    using busy_steps_run by (metis prod.collapse)
  then obtain w0 a w1 b where r: "proxy_start busy_env demo_config (initial_world no_garbage demo_config) = (Inr True, w0)"
    "busy_round w0 = (Inr a, w1)" "busy_round w1 = (Inr b, u)"
    and u: "require_whitelist (wm u)"
    "map (\<lambda>p. (fst p, worker_authorized (snd p))) (workers (wm u)) = [(5, True), (6, False)]"
    unfolding busy_steps_def
    by (auto simp: mbind_def mthen_def mget_def split: prod.splits sum.splits)
  then have "reachable ref_json busy_env demo_config no_garbage u"
    unfolding busy_round_def by (meson reachable.intros)
  with u that show thesis by (auto simp: map_eq_Cons_conv)
qed

section \<open>Safety of the running proxy\<close>

text \<open>Property C1: in every state between two rounds of the running proxy the table of connections and
  the objects agree: every entry of the table is a live object with that descriptor, every live object
  is in the table under its descriptor, so nothing leaks and no two objects share one; every
  descriptor in use is open; and every object carries the callbacks of its own manager, those of a
  worker bound to itself.  The open descriptors are exactly the three standard ones, the listening one
  and those in the table, and none of them serves two purposes.\<close>

theorem connections_consistent:
  assumes "environment E" and "reachable J E cfg g w"
  shows "(\<forall>f a. map_of (connections w) f = Some a \<longleftrightarrow> (\<exists>c. heap w a = Some c \<and> fd c = f)) \<and>
    distinct (map fst (connections w)) \<and>
    (\<forall>a c. heap w a = Some c \<longrightarrow> pimpl c \<noteq> None \<and> 0 \<le> fd c \<and> fd c \<in> set (open_fds w) \<and>
       (ctype c = POOL \<and> message_cb c = Some Pool_closure \<and> state_cb c = Some Pool_closure \<or>
        ctype c = WORKER \<and> message_cb c = Some (Worker_closure a) \<and> state_cb c = Some (Worker_closure a))) \<and>
    set (open_fds w) = {0, 1, 2} \<union> listening (wm w) \<union> dom (map_of (connections w)) \<and>
    listening (wm w) \<inter> {0, 1, 2} = {} \<and> ({0, 1, 2} \<union> listening (wm w)) \<inter> dom (map_of (connections w)) = {}"
proof -
  have ok: "loop_wf w" "loop_owned w" "callbacks_ok w" "fds_accounted w"
    using reachable_ok [OF assms] by (simp_all add: proxy_ok_def)
  have "map_of (connections w) f = Some a \<longleftrightarrow> (\<exists>c. heap w a = Some c \<and> fd c = f)" for f a
    using ok(1,2) unfolding loop_wf_def table_wf_def loop_owned_def by blast
  moreover have "distinct (map fst (connections w))" using ok(1) by (simp add: loop_wf_def table_wf_def)
  moreover have "pimpl c \<noteq> None \<and> 0 \<le> fd c \<and> fd c \<in> set (open_fds w)" if "heap w a = Some c" for a c
    using loop_wf_object [OF ok(1) that] by auto
  moreover have "ctype c = POOL \<and> message_cb c = Some Pool_closure \<and> state_cb c = Some Pool_closure \<or>
      ctype c = WORKER \<and> message_cb c = Some (Worker_closure a) \<and> state_cb c = Some (Worker_closure a)"
    if "heap w a = Some c" for a c
    using ok(3) that unfolding callbacks_ok_def pool_object_def worker_object_def by blast
  ultimately show ?thesis
    using ok(4) [unfolded fds_accounted_def] by (intro conjI allI impI) (simp_all only: simp_thms)
qed

theorem connections_consistent_witness:
  "\<forall>f a. map_of (connections demo_start) f = Some a \<longleftrightarrow> (\<exists>c. heap demo_start a = Some c \<and> fd c = f)"
  by (rule connections_consistent [OF calm.environment_axioms demo_reachable, THEN conjunct1])

text \<open>Property C2: the whitelist.  In every such state, a worker counts as authorised only if there is no
  whitelist, or its current name is on it, or its connection is marked for closing or already gone: a
  worker that logs in with a good name and then with a bad one keeps its flag, but not its connection.\<close>

theorem whitelist_safety:
  assumes "environment E" and "reachable J E cfg g w"
    and "map_of (workers (wm w)) f = Some i" and "worker_authorized i" and "require_whitelist (wm w)"
  shows "(\<exists>c \<in> set (worker_configs (wm w)). worker_cfg_id c = worker_id i) \<or>
    (\<exists>a. info_conn i = Some a \<and> (\<forall>c. heap w a = Some c \<longrightarrow> should_close c))"
proof -
  have "workers_ok w (wm w)" using reachable_ok [OF assms(1,2)] by (simp add: proxy_ok_def)
  then have "entry_ok w (wm w) f i" using assms(3) by (simp add: workers_ok_def)
  with assms(4,5) show ?thesis
    by (auto simp: entry_ok_def doomed_def worker_passes_def is_worker_allowed_def list_ex_iff)
qed


theorem whitelist_safety_witness:
  "\<exists>w i. reachable ref_json busy_env demo_config no_garbage w \<and>
    map_of (workers (wm w)) 5 = Some i \<and> worker_authorized i \<and> require_whitelist (wm w) \<and>
    ((\<exists>c \<in> set (worker_configs (wm w)). worker_cfg_id c = worker_id i) \<or>
     (\<exists>a. info_conn i = Some a \<and> (\<forall>c. heap w a = Some c \<longrightarrow> should_close c)))"
proof -
  obtain w i where w: "reachable ref_json busy_env demo_config no_garbage w" "require_whitelist (wm w)"
    "map_of (workers (wm w)) 5 = Some i" "worker_authorized i" by (rule busy_world)
  from whitelist_safety [OF busy_environment w(1,3,4,2)] w show ?thesis by blast
qed

text \<open>Property C3: the ids of shares.  In every such state the shares in flight have distinct ids, all of
  them positive and below the next one to be given out, so a new share never takes over the verdict of
  an older one; the manager's pool index is one of the configured pools; and at most five attempts to
  reconnect are counted.\<close>

theorem share_ids_unique:
  assumes "environment E" and "reachable J E cfg g w"
  shows "distinct (map fst (share_to_worker (pool w))) \<and>
    (\<forall>i x. map_of (share_to_worker (pool w)) i = Some x \<longrightarrow> 1 \<le> i \<and> i < next_id (pool w)) \<and>
    next_id (pool w) \<le> 2147483647 \<and> map_of (share_to_worker (pool w)) (next_id (pool w)) = None \<and>
    (pool_configs (pool w) \<noteq> [] \<longrightarrow> current_pool_index (pool w) < length (pool_configs (pool w))) \<and>
    reconnect_attempts (pool w) \<le> 5"
proof -
  have ok: "pool_ok (pool w)" using reachable_ok [OF assms] by (simp add: proxy_ok_def)
  then have i: "1 \<le> i \<and> i < next_id (pool w)" if "map_of (share_to_worker (pool w)) i = Some x" for i x
    using that by (auto simp: pool_ok_def dest!: map_of_SomeD)
  then have "map_of (share_to_worker (pool w)) (next_id (pool w)) = None"
    by (meson less_irrefl not_None_eq)
  with i ok show ?thesis by (auto simp: pool_ok_def int_max_def max_reconnect_attempts_def)
qed

theorem share_ids_unique_witness:
  "map_of (share_to_worker (pool demo_start)) (next_id (pool demo_start)) = None"
  using share_ids_unique [OF calm.environment_axioms demo_reachable] by blast

lemma serve_outcome:
  assumes "json_library J"
  shows "fst (serve fuel J E signalled cfg w) \<in> {Inr 0, Inr 1, Inl Undefined, Inl Out_of_fuel}"
proof -
  have "only_fails loop_failures (delete_proxy E)"
    by (rule only_fails_mono [OF delete_proxy_safe]) auto
  then have "only_fails loop_failures (mfinally (proxy_scope fuel J E signalled cfg) (delete_proxy E))"
    by (intro safe proxy_scope_safe [OF assms])
  then have f: "only_fails loop_failures (serve fuel J E signalled cfg)"
    unfolding serve_def by (rule only_fails_mcatch) (auto intro: safe)
  have v: "k = 0 \<or> k = 1" if "serve fuel J E signalled cfg w = (Inr k, w')" for k w'
    using that
    by (auto simp: serve_def proxy_scope_def mcatch_def mfinally_def mbind_def mthen_def
        split: prod.splits sum.splits if_splits)
  show ?thesis
  proof (cases "fst (serve fuel J E signalled cfg w)")
    case (Inl e)
    with f show ?thesis unfolding only_fails_def by (metis insertCI insertE singletonD sum.simps(5))
  next
    case (Inr k)
    with v [of k "snd (serve fuel J E signalled cfg w)"] show ?thesis by (metis insertCI prod.collapse)
  qed
qed



text \<open>Property C5: the end of the process.  If \<open>main\<close> returns, whatever happened before, the destructors
  have run without undefined behaviour and have released everything: no connection, no object and no
  timer is left, and the open descriptors are the three standard ones.\<close>

theorem exit_releases_all:
  assumes "environment E" and "json_library J"
    and "serve fuel J E signalled cfg (initial_world g cfg) = (Inr k, w)"
  shows "connections w = [] \<and> heap w = Map.empty \<and> timeouts w = [] \<and> set (open_fds w) = {0, 1, 2}"
proof -
  obtain r v where v: "proxy_scope fuel J E signalled cfg (initial_world g cfg) = (r, v)"
    by (cases "proxy_scope fuel J E signalled cfg (initial_world g cfg)")
  show ?thesis
  proof (cases r)
    case (Inl e)
    with only_failsD [OF proxy_scope_safe [OF assms(2)]] v have "e \<in> loop_failures" by blast
    then have "\<not> std_exception e" by auto
    with assms(3) v Inl show ?thesis by (simp add: serve_def mcatch_def mfinally_def)
  next
    case (Inr n)
    with v have "proxy_ok v" using proxy_scope_ok [OF assms(1)] by blast
    from delete_proxy_apply [OF assms(1) this] obtain w' where w': "delete_proxy E v = (Inr (), w')"
      "connections w' = []" "heap w' = Map.empty" "timeouts w' = []" "set (open_fds w') = {0, 1, 2}" by blast
    with assms(3) v Inr show ?thesis by (simp add: serve_def)
  qed
qed

theorem exit_releases_all_witness:
  "\<exists>w. serve 0 ref_json calm_env True demo_config (initial_world no_garbage demo_config) = (Inr 0, w) \<and>
    connections w = [] \<and> heap w = Map.empty \<and> timeouts w = [] \<and> set (open_fds w) = {0, 1, 2}"
proof -
  let ?s = "serve 0 ref_json calm_env True demo_config (initial_world no_garbage demo_config)"
  have "fst ?s = Inr 0" by code_simp
  then have "?s = (Inr 0, snd ?s)" by (metis prod.collapse)
  with exit_releases_all [OF calm.environment_axioms ref_json_library this] show ?thesis by blast
qed

section \<open>The process as a broker\<close>



text \<open>Property C7: promises over time.  However long the loop runs, through failures too, the next id
  never goes back, a share in flight keeps its worker until its verdict has been passed on, its id never
  comes back, and a job once on offer is never withdrawn.\<close>

theorem run_keeps_promises:
  assumes "environment E" and "proxy_ok w" and "proxy_run fuel J E w = (r, w')"
  shows "next_id (pool w) \<le> next_id (pool w') \<and>
    (\<forall>i < next_id (pool w). map_of (share_to_worker (pool w')) i = map_of (share_to_worker (pool w)) i \<or>
       map_of (share_to_worker (pool w')) i = None) \<and>
    (has_job (wm w) \<longrightarrow> has_job (wm w'))"
proof -
  note steps = run_refines [OF assms]
  from steps_ids [OF steps] steps_in_flight [OF steps] steps_offer [OF steps] show ?thesis
    by (auto simp: broker_view_def split: if_splits)
qed

definition demo_flight :: proxy where
  "demo_flight = demo_proxy\<lparr>pool := demo_manager\<lparr>share_to_worker := [(1, ''rig'')], next_id := 2\<rparr>\<rparr>"

theorem run_keeps_promises_witness:
  "\<exists>r w'. proxy_run 2 ref_json calm_env demo_flight = (r, w') \<and> 2 \<le> next_id (pool w') \<and>
    map_of (share_to_worker (pool w')) 1 \<in> {Some ''rig'', None}"
proof -
  obtain r w' where r: "proxy_run 2 ref_json calm_env demo_flight = (r, w')"
    by (cases "proxy_run 2 ref_json calm_env demo_flight")
  have "proxy_inv (\<lambda>_ _. True) demo_flight" unfolding demo_flight_def
    by (rule proxy_system.inv_set_pool [OF proxy_system_any [OF calm.environment_axioms]])
      (use demo_proxy_fully_ok in \<open>simp_all add: proxy_inv_def pool_ok_def int_max_def\<close>)
  then have "proxy_ok demo_flight" by (simp add: proxy_inv_def)
  from run_keeps_promises [OF calm.environment_axioms this r] r show ?thesis
    by (auto simp: demo_flight_def dest!: spec [of _ 1])
qed

section \<open>Messages\<close>

text \<open>Property C8: the framing of the input.  In every reachable state, when bytes arrive for a connection,
  its manager's handler gets exactly the complete lines of the buffered and the new input, in order,
  each without its carriage return, each once; when it returns, what follows the last newline is
  buffered.  How the stream is cut into reads does not matter.\<close>

theorem messages_delivered:
  assumes "environment E" and "reachable J E cfg g w" and "heap w a = Some c"
  shows "\<exists>cb rs. receive_bytes (on_message J E) a bytes w =
      mthen (deliver (on_message J E) a cb rs) (mret (int (length bytes)))
        (w\<lparr>heap := (heap w)(a \<mapsto> c\<lparr>read_buffer := read_buffer c @ bytes\<rparr>)\<rparr>) \<and>
    cb = (if ctype c = POOL then Pool_closure else Worker_closure a) \<and>
    map fst rs = map strip_cr (fst (split_lines (read_buffer c @ bytes))) \<and>
    (\<forall>n w'. receive_bytes (on_message J E) a bytes w = (Inr n, w') \<longrightarrow>
       (\<exists>c'. heap w' a = Some c' \<and> read_buffer c' = snd (split_lines (read_buffer c @ bytes)))) \<and>
    (\<forall>more. fst (split_lines (read_buffer c @ bytes @ more)) =
       fst (split_lines (read_buffer c @ bytes)) @
       fst (split_lines (snd (split_lines (read_buffer c @ bytes)) @ more)))"
proof -
  have ok: "proxy_ok w" using assms(1,2) by (rule reachable_ok)
  obtain cb where cb: "message_cb c = Some cb"
    "cb = Pool_closure \<and> ctype c = POOL \<or> cb = Worker_closure a \<and> ctype c = WORKER"
    using proxy_callback [OF ok assms(3)] by metis
  note r = system_receives [OF assms(1) ok assms(3) cb(1), of J bytes]
  have "fst (split_lines (read_buffer c @ bytes @ more)) = fst (split_lines (read_buffer c @ bytes)) @
       fst (split_lines (snd (split_lines (read_buffer c @ bytes)) @ more))" for more
    using split_lines_append [of "read_buffer c @ bytes" more] by (simp add: Let_def case_prod_beta)
  moreover have "\<exists>c'. heap w' a = Some c' \<and> read_buffer c' = snd (split_lines (read_buffer c @ bytes))"
    if "receive_bytes (on_message J E) a bytes w = (Inr n, w')" for n w'
    using r(2) [OF that] by blast
  ultimately show ?thesis
    using r(1) cb(2) rounds_lines
    by (intro exI [of _ cb] exI [of _ "rounds (read_buffer c @ bytes)"]) auto
qed

theorem messages_delivered_witness:
  "\<exists>a c rs. heap demo_start a = Some c \<and> ctype c = POOL \<and>
    receive_bytes (on_message ref_json calm_env) a (''{}'' @ [newline] @ ''{'') demo_start =
      mthen (deliver (on_message ref_json calm_env) a Pool_closure rs) (mret 4)
        (demo_start\<lparr>heap := (heap demo_start)(a \<mapsto> c\<lparr>read_buffer := read_buffer c @ ''{}'' @ [newline] @ ''{''\<rparr>)\<rparr>)"
proof -
  have "(case heap demo_start 0 of None \<Rightarrow> False | Some c \<Rightarrow> ctype c = POOL)" by code_simp
  then obtain c where c: "heap demo_start 0 = Some c" "ctype c = POOL" by (auto split: option.splits)
  from messages_delivered [OF calm.environment_axioms demo_reachable c(1), of "''{}'' @ [newline] @ ''{''"] c
  show ?thesis by (auto simp del: append_Cons)
qed

text \<open>Property C9: every round of the loop comes to its end: from a reachable state, with a JSON library that
  keeps its promises, a round either completes or ends in undefined behaviour; the loops inside it,
  over buffered lines, connections, pools and timers, never go on for ever.\<close>

theorem rounds_terminate:
  assumes "environment E" and "json_library J" and "reachable J E cfg g w"
  shows "\<exists>again w'. run_round E (on_message J E) (on_state E) (fire_timer E) w = (Inr again, w') \<or>
    run_round E (on_message J E) (on_state E) (fire_timer E) w = (Inl Undefined, w')"
proof -
  have ok: "proxy_ok w" using assms(1,3) by (rule reachable_ok)
  obtain r w' where r: "run_round E (on_message J E) (on_state E) (fire_timer E) w = (r, w')"
    by (cases "run_round E (on_message J E) (on_state E) (fire_timer E) w")
  then show ?thesis
    using round_fails_undefined [OF assms(1,2) ok, of _ w'] by (cases r) blast+
qed

theorem rounds_terminate_witness:
  "\<exists>again w'. run_round calm_env (on_message ref_json calm_env) (on_state calm_env) (fire_timer calm_env) demo_start
      = (Inr again, w') \<or>
    run_round calm_env (on_message ref_json calm_env) (on_state calm_env) (fire_timer calm_env) demo_start
      = (Inl Undefined, w')"
  by (rule rounds_terminate [OF calm.environment_axioms ref_json_library demo_reachable])




section \<open>Paths\<close>


definition notify_line :: string where
  "notify_line = ''{\"method\":\"mining.notify\",\"params\":[\"j7\",\"bb\",\"ff\",\"1\"]}''"

definition demo_job :: job where
  "demo_job = \<lparr>job_id = ''j7'', blob = ''bb'', target = ''ff'', difficulty = ''1'', height = 0, clean_jobs = False\<rparr>"

text \<open>The proxy with its worker logged in.\<close>

definition demo_mining :: proxy where
  "demo_mining = demo_proxy\<lparr>wm := demo_workers\<lparr>workers :=
     [(6, demo_info\<lparr>worker_subscribed := True, worker_authorized := True, worker_id := ''rig''\<rparr>)]\<rparr>\<rparr>"

lemma demo_mining_ok: "proxy_ok demo_mining"
proof -
  have "workers_ok demo_mining (wm demo_mining)"
    by (auto simp: demo_mining_def workers_ok_def entry_ok_def points_to_def worker_passes_def is_worker_allowed_def)
  with demo_proxy_fully_ok loop_ok_cong [of demo_mining demo_proxy] heap_ok_cong [of demo_mining demo_proxy]
    fds_accounted_cong [of demo_mining demo_proxy]
  show ?thesis by (simp add: demo_mining_def proxy_ok_def)
qed

lemma demo_mining_deliverable: "deliverable calm_env demo_mining (wm demo_mining)"
  by (auto simp: demo_mining_def deliverable_def is_connected_def less_eq_connection_state_def split: if_splits)




section \<open>Losses\<close>

text \<open>Property C11: the loss of the pool's connection by a hang-up goes unnoticed.  The loop destroys the
  connection, but the pool manager keeps its state, believes to be connected, and sets no timer to
  reconnect; shares submitted afterwards use up ids, are recorded, and are sent to nobody.\<close>

theorem pool_loss_unnoticed:
  assumes "environment E" and "proxy_ok w" and "pool_conn (pool w) = Some a" and "heap w a = Some c"
    and "ev AND (POLLERR OR POLLHUP) \<noteq> 0"
    and "connected (pool w)" and "pool_has_job (pool w)" and "pool_configs (pool w) \<noteq> []"
    and "next_id (pool w) < int_max"
  shows "\<exists>w'. hang_up J E (fd c) ev w = (Inr (), w') \<and> heap w' a = None \<and>
    map_of (connections w') (pool_fd (pool w)) = None \<and> pool w' = pool w \<and> timeouts w' = timeouts w \<and>
    submit_share E x job nonce res w' = (Inr (), w'\<lparr>pool := (pool w)\<lparr>next_id := next_id (pool w) + 1,
      share_to_worker := AList.update (next_id (pool w)) x (share_to_worker (pool w))\<rparr>\<rparr>)"
proof -
  have f: "fd c = pool_fd (pool w)" using pool_connection_found [OF assms(2-4)] by simp
  obtain w' where w': "hang_up J E (fd c) ev w = (Inr (), w')" "heap w' a = None"
    "map_of (connections w') (fd c) = None" "pool w' = pool w" "timeouts w' = timeouts w"
    using hang_up_apply [OF assms(1,2,4,5)] by metis
  have "current_pool_index (pool w) < length (pool_configs (pool w))"
    using assms(2,8) by (simp add: proxy_ok_def pool_ok_def)
  with w' f assms(3,6-9) show ?thesis
    by (intro exI [of _ w'])
      (simp add: submit_share_def get_next_id_apply pool_connection_def get_connection_def)
qed

theorem pool_loss_unnoticed_witness:
  "\<exists>w'. hang_up ref_json calm_env 5 POLLHUP demo_proxy = (Inr (), w') \<and> heap w' 0 = None \<and>
    connected (pool w') \<and> timeouts w' = [tick_timer]"
proof -
  have "POLLHUP AND (POLLERR OR POLLHUP) \<noteq> 0" by code_simp
  from pool_loss_unnoticed [OF calm.environment_axioms demo_proxy_fully_ok _ _ this, of 0 demo_pool_conn]
  show ?thesis by (fastforce simp: int_max_def)
qed

text \<open>Property C14: the loss of a worker's connection by a hang-up leaves its entry in the worker manager's
  table, with a pointer to the destroyed object: if the worker was subscribed and authorised, the next
  job is undefined behaviour.\<close>

theorem lost_worker_breaks_broadcast:
  assumes "environment E" and "proxy_ok w" and "map_of (workers (wm w)) f = Some i"
    and "worker_subscribed i" and "worker_authorized i" and "info_conn i = Some a"
    and "heap w a = Some c" and "ev AND (POLLERR OR POLLHUP) \<noteq> 0"
  shows "\<exists>w'. hang_up J E f ev w = (Inr (), w') \<and> proxy_ok w' \<and> heap w' a = None \<and>
    map_of (workers (wm w')) f = Some i \<and> worker_count (wm w') = worker_count (wm w) \<and>
    fst (send_job E j w') = Inl Undefined"
proof -
  have "workers_ok w (wm w)" using assms(2) by (simp add: proxy_ok_def)
  then have "entry_ok w (wm w) f i" using assms(3) by (simp add: workers_ok_def)
  with assms(6,7) have f: "fd c = f" by (simp add: entry_ok_def points_to_def)
  obtain w' where w': "hang_up J E (fd c) ev w = (Inr (), w')" "proxy_ok w'" "heap w' a = None" "wm w' = wm w"
    using hang_up_apply [OF assms(1,2,7,8)] by metis
  then have "eligible (wm w') f" "map_of (workers (wm w')) f = Some i"
    using assms(3-5) by (simp_all add: eligible_def)
  moreover have "fst (send_job E j w') = Inl Undefined" by (rule send_job_to_gone [OF assms(1) calculation assms(6) w'(3)])
  moreover have "worker_count (wm w') = worker_count (wm w)" using w'(4) by simp
  ultimately show ?thesis using w'(1-3) f by (intro exI [of _ w']) simp
qed

theorem lost_worker_breaks_broadcast_witness:
  "\<exists>w'. hang_up ref_json calm_env 6 POLLHUP demo_mining = (Inr (), w') \<and> worker_count (wm w') = 1 \<and>
    fst (send_job calm_env demo_job w') = Inl Undefined"
proof -
  have "POLLHUP AND (POLLERR OR POLLHUP) \<noteq> 0" by code_simp
  from lost_worker_breaks_broadcast [OF calm.environment_axioms demo_mining_ok _ _ _ _ _ this, of 6
      "demo_info\<lparr>worker_subscribed := True, worker_authorized := True, worker_id := ''rig''\<rparr>" 1 demo_worker_conn
      ref_json demo_job]
  show ?thesis by (auto simp: demo_mining_def worker_count_def)
qed

section \<open>Exit status\<close>

text \<open>Property C15: the ways \<open>main\<close> ends before it serves: a request for help ends with status 0; a
  configuration file that cannot be opened, that the JSON library rejects, or that names no pools ends
  with status 1.\<close>

theorem startup_outcomes:
  assumes "environment E" and "parse_arguments default_config_path args = None \<and> status = 0 \<or>
    (\<exists>path. parse_arguments default_config_path args = Some path \<and> status = 1 \<and>
      (files path = None \<or> load_from_file J (memory E 0) path (files path) = Inl Json_exception \<or>
       (\<exists>cfg. load_from_file J (memory E 0) path (files path) = Inr cfg \<and> pools cfg = [])))"
  shows "main fuel J E signalled files args = Inr status"
proof -
  have s: "fst (serve fuel J E signalled cfg (initial_world g cfg)) = Inr 1" if "pools cfg = []" for cfg g
  proof -
    let ?w = "snd (proxy_scope fuel J E signalled cfg (initial_world g cfg))"
    have r: "proxy_scope fuel J E signalled cfg (initial_world g cfg) = (Inr 1, ?w)"
      using that by (simp add: proxy_scope_def proxy_start_def mthen_def mbind_def print_line_def emit_def)
    from delete_proxy_apply [OF assms(1) proxy_scope_ok [OF assms(1) r]] r show ?thesis
      by (auto simp: serve_def)
  qed
  have n: "load_from_file J g path None = Inl (Runtime_error (''Cannot open config file: '' @ path))" for g path
    by (simp add: load_from_file_def)
  from assms(2) show ?thesis by (auto simp: main_def s n)
qed

theorem startup_outcomes_witness:
  "main 1 ref_json calm_env False (\<lambda>_. None) [''--config'', ''f'', ''-h''] = Inr 0 \<and>
   main 1 ref_json calm_env False (\<lambda>_. None) [''--config'', ''--help''] = Inr 1"
proof
  have "parse_arguments default_config_path [''--config'', ''f'', ''-h''] = None" by code_simp
  then show "main 1 ref_json calm_env False (\<lambda>_. None) [''--config'', ''f'', ''-h''] = Inr 0"
    by (intro startup_outcomes calm.environment_axioms) simp
  have "parse_arguments default_config_path [''--config'', ''--help''] = Some ''--help''" by code_simp
  then show "main 1 ref_json calm_env False (\<lambda>_. None) [''--config'', ''--help''] = Inr 1"
    by (intro startup_outcomes calm.environment_axioms) simp
qed

end
